theory Spec2Isabelle
  imports Complex_Main
begin

text \<open>
  A model of the bypass module of the server: the tracker of upstream performance
  (\<^verbatim>\<open>ApiPerformanceTracker\<close>), the classifier of upstream answers
  (\<^verbatim>\<open>ValidationService\<close>), the files and the remote list (\<^verbatim>\<open>FileService\<close>), the
  route that adds a descriptor, and the resolver (\<^verbatim>\<open>BypassService\<close>). Each function
  of the module is a function here, with the same name where the name is free.
  State that the code mutates (the statistics, the files) is passed in and returned.
  What the code reads from outside (the remote list, the clock, the answers of the
  upstreams, the success of a write) is an argument. Asynchronous calls are modelled
  one whole call at a time.
\<close>

section \<open>Configuration\<close>

text \<open>
  The constants of the \<^verbatim>\<open>CONFIG\<close> object that the modelled functions read.
  Times are milliseconds.
\<close>

definition TIMEOUT :: real where
  "TIMEOUT = 60000"

definition RETRY_LIMIT :: nat where
  "RETRY_LIMIT = 1"

definition RETRY_DELAY :: real where
  "RETRY_DELAY = 2000"

definition CACHE_DURATION :: int where
  "CACHE_DURATION = 10 * 60 * 1000"

section \<open>JavaScript numbers\<close>

text \<open>
  A JavaScript number is a finite value, one of the two infinities, or NaN. Finite
  doubles are taken as exact reals (rounding is not modelled), and the sign of zero
  is not modelled: every zero of this program is a counter or a sum of elapsed times.
\<close>

datatype jsnum = Num real | PosInf | NegInf | NaN

fun js_div :: "jsnum \<Rightarrow> jsnum \<Rightarrow> jsnum" where
  "js_div NaN _ = NaN"
| "js_div _ NaN = NaN"
| "js_div (Num a) (Num b) =
     (if b = 0 then (if a = 0 then NaN else if 0 < a then PosInf else NegInf)
      else Num (a / b))"
| "js_div (Num a) PosInf = Num 0"
| "js_div (Num a) NegInf = Num 0"
| "js_div PosInf (Num b) = (if 0 \<le> b then PosInf else NegInf)"
| "js_div NegInf (Num b) = (if 0 \<le> b then NegInf else PosInf)"
| "js_div PosInf _ = NaN"
| "js_div NegInf _ = NaN"

fun js_sub :: "jsnum \<Rightarrow> jsnum \<Rightarrow> jsnum" where
  "js_sub NaN _ = NaN"
| "js_sub _ NaN = NaN"
| "js_sub (Num a) (Num b) = Num (a - b)"
| "js_sub (Num a) PosInf = NegInf"
| "js_sub (Num a) NegInf = PosInf"
| "js_sub PosInf PosInf = NaN"
| "js_sub PosInf _ = PosInf"
| "js_sub NegInf NegInf = NaN"
| "js_sub NegInf _ = NegInf"

text \<open>Truthiness of a number: \<^verbatim>\<open>0\<close> and \<^verbatim>\<open>NaN\<close> are falsy.\<close>

fun js_truthy_num :: "jsnum \<Rightarrow> bool" where
  "js_truthy_num (Num a) = (a \<noteq> 0)"
| "js_truthy_num NaN = False"
| "js_truthy_num _ = True"

text \<open>The operator \<^verbatim>\<open>a || b\<close> on numbers.\<close>

definition js_or :: "jsnum \<Rightarrow> jsnum \<Rightarrow> jsnum" where
  "js_or a b = (if js_truthy_num a then a else b)"

text \<open>The strict order \<^verbatim>\<open>a < b\<close> on numbers; every comparison with NaN is false.\<close>

fun js_less :: "jsnum \<Rightarrow> jsnum \<Rightarrow> bool" where
  "js_less NaN _ = False"
| "js_less _ NaN = False"
| "js_less (Num a) (Num b) = (a < b)"
| "js_less (Num a) PosInf = True"
| "js_less (Num a) NegInf = False"
| "js_less PosInf _ = False"
| "js_less NegInf NegInf = False"
| "js_less NegInf _ = True"

section \<open>ApiPerformanceTracker\<close>

text \<open>
  \<^verbatim>\<open>stats\<close> is an object used as a dictionary from the endpoint template to its
  three counters. It is modelled as a map; keys are endpoint templates, so property
  names inherited from the object prototype are not keys of the model.
\<close>

record tracker_stat =
  totalCalls :: nat
  successCalls :: nat
  totalTime :: real

type_synonym tracker = "string \<rightharpoonup> tracker_stat"

definition record_stat :: "tracker \<Rightarrow> string \<Rightarrow> real \<Rightarrow> bool \<Rightarrow> tracker" where
  "record_stat stats apiUrl responseTime success =
     (let s0 = (case stats apiUrl of
                  None \<Rightarrow> \<lparr>totalCalls = 0, successCalls = 0, totalTime = 0\<rparr>
                | Some s \<Rightarrow> s);
          s1 = s0\<lparr>totalCalls := totalCalls s0 + 1\<rparr>;
          s2 = (if success
                then s1\<lparr>successCalls := successCalls s1 + 1,
                        totalTime := totalTime s1 + responseTime\<rparr>
                else s1)
      in stats(apiUrl \<mapsto> s2))"

definition getScore :: "tracker \<Rightarrow> string \<Rightarrow> jsnum" where
  "getScore stats apiUrl =
     (case stats apiUrl of
        None \<Rightarrow> PosInf
      | Some stat \<Rightarrow>
          if totalCalls stat = 0 then PosInf
          else
            (let avgTime = js_or (js_div (Num (totalTime stat)) (Num (real (successCalls stat))))
                                 (Num TIMEOUT);
                 successRate = js_div (Num (real (successCalls stat))) (Num (real (totalCalls stat)))
             in js_div avgTime (js_or successRate (Num (1 / 10)))))"

text \<open>A sequence of \<^verbatim>\<open>record\<close> calls, applied in order.\<close>

fun record_all :: "tracker \<Rightarrow> (string \<times> real \<times> bool) list \<Rightarrow> tracker" where
  "record_all stats [] = stats"
| "record_all stats ((apiUrl, responseTime, success) # calls) =
     record_all (record_stat stats apiUrl responseTime success) calls"


text \<open>
  \<^verbatim>\<open>sortApis\<close> sorts the descriptors with the comparator
  \<^verbatim>\<open>getScore(a.url) - getScore(b.url)\<close>. The engine's sort is stable and reads only
  the sign of the comparator (a NaN counts as zero), so it is modelled as the stable
  insertion sort driven by that sign: \<^verbatim>\<open>a\<close> goes behind \<^verbatim>\<open>b\<close> exactly when
  the comparator is positive. A score is never NaN (lemma \<open>getScore_not_NaN\<close>), so
  the comparator orders the descriptors consistently and the stable sorted list is
  the same for every sorting algorithm.
\<close>

record api_config =
  api_url :: string
  parse_json :: bool
  response_key :: string

definition compare_apis :: "tracker \<Rightarrow> api_config \<Rightarrow> api_config \<Rightarrow> jsnum" where
  "compare_apis stats a b =
     (let scoreA = getScore stats (api_url a);
          scoreB = getScore stats (api_url b)
      in js_sub scoreA scoreB)"

fun insert_api :: "tracker \<Rightarrow> api_config \<Rightarrow> api_config list \<Rightarrow> api_config list" where
  "insert_api stats a [] = [a]"
| "insert_api stats a (b # bs) =
     (if js_less (Num 0) (compare_apis stats a b) then b # insert_api stats a bs
      else a # b # bs)"

definition sortApis :: "tracker \<Rightarrow> api_config list \<Rightarrow> api_config list" where
  "sortApis stats apis = foldr (insert_api stats) apis []"

section \<open>Response values\<close>

text \<open>
  What an upstream answers: a string, or a parsed JSON value. A number is kept as the
  text \<^verbatim>\<open>JSON.stringify\<close> prints for it, which together with its truthiness (it is
  falsy exactly when that text is \<^verbatim>\<open>0\<close>) is all the program observes of it. An
  object is the list of its own properties in enumeration order. Characters are
  8-bit code units.
\<close>

datatype jsval =
    JUndefined
  | JNull
  | JBool bool
  | JNum string
  | JStr string
  | JArr "jsval list"
  | JObj "(string \<times> jsval) list"

fun js_truthy :: "jsval \<Rightarrow> bool" where
  "js_truthy JUndefined = False"
| "js_truthy JNull = False"
| "js_truthy (JBool b) = b"
| "js_truthy (JNum r) = (r \<noteq> ''0'')"
| "js_truthy (JStr s) = (s \<noteq> [])"
| "js_truthy (JArr _) = True"
| "js_truthy (JObj _) = True"

definition hex_digit :: "nat \<Rightarrow> char" where
  "hex_digit n = (if n < 10 then char_of (48 + n) else char_of (87 + n))"

definition json_escape_char :: "char \<Rightarrow> string" where
  "json_escape_char c =
     (let n = (of_char c :: nat) in
      if n = 34 then [CHR 0x5C, CHR 0x22]
      else if n = 92 then [CHR 0x5C, CHR 0x5C]
      else if n = 8 then [CHR 0x5C, CHR ''b'']
      else if n = 9 then [CHR 0x5C, CHR ''t'']
      else if n = 10 then [CHR 0x5C, CHR ''n'']
      else if n = 12 then [CHR 0x5C, CHR ''f'']
      else if n = 13 then [CHR 0x5C, CHR ''r'']
      else if n < 32 then [CHR 0x5C, CHR ''u'', CHR ''0'', CHR ''0'',
                           hex_digit (n div 16), hex_digit (n mod 16)]
      else [c])"

definition json_quote :: "string \<Rightarrow> string" where
  "json_quote s = [CHR 0x22] @ concat (map json_escape_char s) @ [CHR 0x22]"

fun join_with :: "string \<Rightarrow> string list \<Rightarrow> string" where
  "join_with sep [] = []"
| "join_with sep [x] = x"
| "join_with sep (x # y # ys) = x @ sep @ join_with sep (y # ys)"

text \<open>
  \<^verbatim>\<open>JSON.stringify\<close> without indentation. At the top level \<^verbatim>\<open>undefined\<close> has no
  text (the empty string stands for it here; every caller has returned before, on the
  falsy value); inside an array it prints as \<^verbatim>\<open>null\<close>, and a property holding it is
  left out.
\<close>

fun JSON_stringify :: "jsval \<Rightarrow> string" where
  "JSON_stringify JUndefined = []"
| "JSON_stringify JNull = ''null''"
| "JSON_stringify (JBool b) = (if b then ''true'' else ''false'')"
| "JSON_stringify (JNum r) = r"
| "JSON_stringify (JStr s) = json_quote s"
| "JSON_stringify (JArr vs) =
     ''['' @ join_with '','' (map (\<lambda>v. if v = JUndefined then ''null'' else JSON_stringify v) vs) @ '']''"
| "JSON_stringify (JObj kvs) =
     ''{'' @ join_with '',''
        (map (\<lambda>(k, v). json_quote k @ '':'' @ JSON_stringify v)
           (filter (\<lambda>(k, v). v \<noteq> JUndefined) kvs)) @ ''}''"


text \<open>
  Reading a property, \<^verbatim>\<open>data[key]\<close>: \<open>None\<close> is the TypeError raised on
  \<^verbatim>\<open>null\<close> and \<^verbatim>\<open>undefined\<close>. An array and a string answer a canonical index and
  \<^verbatim>\<open>length\<close>. A property that is absent reads as \<^verbatim>\<open>undefined\<close>; so does, in this
  model, a member inherited from a prototype (a function, which the classifier
  rejects like \<^verbatim>\<open>undefined\<close>).
\<close>

definition is_digit :: "char \<Rightarrow> bool" where
  "is_digit c = (48 \<le> (of_char c :: nat) \<and> (of_char c :: nat) \<le> 57)"

definition array_index :: "string \<Rightarrow> nat option" where
  "array_index key =
     (if key \<noteq> [] \<and> list_all is_digit key \<and> (key = ''0'' \<or> hd key \<noteq> CHR ''0'')
      then Some (foldl (\<lambda>n c. 10 * n + (of_char c - 48)) 0 key)
      else None)"

fun decimal :: "nat \<Rightarrow> string" where
  "decimal n = (if n < 10 then [char_of (48 + n)] else decimal (n div 10) @ [char_of (48 + n mod 10)])"

declare decimal.simps [simp del]

definition get_property :: "jsval \<Rightarrow> string \<Rightarrow> jsval option" where
  "get_property data key =
     (case data of
        JUndefined \<Rightarrow> None
      | JNull \<Rightarrow> None
      | JBool _ \<Rightarrow> Some JUndefined
      | JNum _ \<Rightarrow> Some JUndefined
      | JStr s \<Rightarrow>
          (case array_index key of
             Some i \<Rightarrow> Some (if i < length s then JStr [s ! i] else JUndefined)
           | None \<Rightarrow> Some (if key = ''length'' then JNum (decimal (length s)) else JUndefined))
      | JArr vs \<Rightarrow>
          (case array_index key of
             Some i \<Rightarrow> Some (if i < length vs then vs ! i else JUndefined)
           | None \<Rightarrow> Some (if key = ''length'' then JNum (decimal (length vs)) else JUndefined))
      | JObj kvs \<Rightarrow>
          Some (case map_of kvs key of Some v \<Rightarrow> v | None \<Rightarrow> JUndefined))"

section \<open>ValidationService\<close>

definition ERROR_KEYWORDS :: "string list" where
  "ERROR_KEYWORDS =
     [''erro'', ''error'', ''404'', ''unsupported'', ''invalid'', ''failed'', ''null'',
      ''afk'', ''down'', ''off'', ''stop'', ''discord'', ''not'', ''none'', ''fall'', ''er'', ''inva'']"

definition SUCCESS_KEYWORDS :: "string list" where
  "SUCCESS_KEYWORDS =
     [''sucesso'', ''ok'', ''done'', ''completed'', ''success'', ''valid'', ''authorized'',
      ''passed'', ''loadstring'', ''local'', ''https'', ''http'', ''game:HttpGet'',
      ''No stages or already authenticated'',
      ''You have been authenticated. Please proceed back to the application.'',
      ''key'', ''FREE'', ''link'', ''type'']"

text \<open>
  Each keyword is spliced, unescaped, into the pattern
  \<^verbatim>\<open>new RegExp(`\\b${keyword}\\b`, 'i')\<close>. The only pattern characters of the
  configured keywords that are not literals are the dots, which match any character
  but a line terminator. Letters match without regard to case; the keywords are
  ASCII, so the case folding is the ASCII one. \<^verbatim>\<open>\b\<close> holds between a word character
  (letter, digit, underscore) and a non-word character or an end of the text.
\<close>

datatype atom = AnyChar | Lit char

definition atom_of :: "char \<Rightarrow> atom" where
  "atom_of c = (if c = CHR ''.'' then AnyChar else Lit c)"

definition to_upper :: "char \<Rightarrow> char" where
  "to_upper c =
     (let n = (of_char c :: nat) in if 97 \<le> n \<and> n \<le> 122 then char_of (n - 32) else c)"

definition is_line_terminator :: "char \<Rightarrow> bool" where
  "is_line_terminator c = ((of_char c :: nat) = 10 \<or> (of_char c :: nat) = 13)"

definition is_word_char :: "char \<Rightarrow> bool" where
  "is_word_char c =
     (let n = (of_char c :: nat) in
      (97 \<le> n \<and> n \<le> 122) \<or> (65 \<le> n \<and> n \<le> 90) \<or> (48 \<le> n \<and> n \<le> 57) \<or> n = 95)"

fun atom_matches :: "atom \<Rightarrow> char \<Rightarrow> bool" where
  "atom_matches AnyChar c = (\<not> is_line_terminator c)"
| "atom_matches (Lit p) c = (to_upper p = to_upper c)"

text \<open>
  The assertion \<^verbatim>\<open>\b\<close> at a position, given the character before it (if any) and
  the text from it on.
\<close>

definition word_boundary :: "char option \<Rightarrow> string \<Rightarrow> bool" where
  "word_boundary prev rest =
     ((case prev of None \<Rightarrow> False | Some c \<Rightarrow> is_word_char c)
      \<noteq> (case rest of [] \<Rightarrow> False | c # _ \<Rightarrow> is_word_char c))"

text \<open>The atoms, then the closing \<^verbatim>\<open>\b\<close>, matched from one position.\<close>

fun match_here :: "atom list \<Rightarrow> char option \<Rightarrow> string \<Rightarrow> bool" where
  "match_here [] prev rest = word_boundary prev rest"
| "match_here (a # as) prev [] = False"
| "match_here (a # as) prev (c # cs) =
     (if atom_matches a c then match_here as (Some c) cs else False)"

text \<open>The opening \<^verbatim>\<open>\b\<close> and the rest of the pattern, at one position.\<close>

definition match_at :: "atom list \<Rightarrow> char option \<Rightarrow> string \<Rightarrow> bool" where
  "match_at as prev rest = (if word_boundary prev rest then match_here as prev rest else False)"

text \<open>\<^verbatim>\<open>test\<close>: the pattern is tried from every position, left to right.\<close>

fun search :: "atom list \<Rightarrow> char option \<Rightarrow> string \<Rightarrow> bool" where
  "search as prev [] = match_at as prev []"
| "search as prev (c # cs) =
     (if match_at as prev (c # cs) then True else search as (Some c) cs)"

definition keyword_test :: "string \<Rightarrow> string \<Rightarrow> bool" where
  "keyword_test keyword text = search (map atom_of keyword) None text"

text \<open>\<^verbatim>\<open>/^[a-f0-9]{32}$/i\<close>: exactly 32 characters, each a hexadecimal digit.\<close>

definition is_hex_char :: "char \<Rightarrow> bool" where
  "is_hex_char c =
     (let n = (of_char c :: nat) in
      (97 \<le> n \<and> n \<le> 102) \<or> (65 \<le> n \<and> n \<le> 70) \<or> (48 \<le> n \<and> n \<le> 57))"

definition hex32_test :: "string \<Rightarrow> bool" where
  "hex32_test text = (length text = 32 \<and> list_all is_hex_char text)"

definition toString :: "jsval \<Rightarrow> string" where
  "toString response = (case response of JStr s \<Rightarrow> s | _ \<Rightarrow> JSON_stringify response)"

definition isErrorResponse :: "jsval \<Rightarrow> bool" where
  "isErrorResponse responseText =
     (if \<not> js_truthy responseText then True
      else (let text = toString responseText
            in list_ex (\<lambda>keyword. keyword_test keyword text) ERROR_KEYWORDS))"

definition isSuccessResponse :: "jsval \<Rightarrow> bool" where
  "isSuccessResponse responseText =
     (if \<not> js_truthy responseText then False
      else (let text = toString responseText
            in list_ex (\<lambda>keyword. keyword_test keyword text) SUCCESS_KEYWORDS))"

definition isValidResponse :: "jsval \<Rightarrow> bool" where
  "isValidResponse responseText =
     (if \<not> js_truthy responseText then False
      else (let text = toString responseText
            in if hex32_test text then True
               else \<not> isErrorResponse (JStr text) \<and> isSuccessResponse (JStr text)))"


section \<open>FileService\<close>

text \<open>
  The three documents the service reads. \<open>remote_fetch\<close> is the outcome of the
  request for the remote list: it failed, or it returned a document whose
  \<^verbatim>\<open>apis\<close> member is a list or is absent. The two local files hold \<open>None\<close> while
  they are missing or unreadable. A write that fails is caught and logged by the
  code and leaves the file as it was; \<open>ok\<close> says whether the write went through.
\<close>

datatype remote_fetch = FetchFailed | Fetched "api_config list option"

record saved_url =
  response :: jsval
  timestamp :: int

record files =
  urls_file :: "(string \<rightharpoonup> saved_url) option"
  apis_dat :: "api_config list option"

definition loadApis :: "remote_fetch \<Rightarrow> api_config list" where
  "loadApis remote =
     (case remote of
        Fetched (Some apis) \<Rightarrow> apis
      | Fetched None \<Rightarrow> []
      | FetchFailed \<Rightarrow> [])"

definition loadSavedUrls :: "files \<Rightarrow> (string \<rightharpoonup> saved_url)" where
  "loadSavedUrls fs = (case urls_file fs of Some m \<Rightarrow> m | None \<Rightarrow> Map.empty)"

definition saveUrl :: "bool \<Rightarrow> int \<Rightarrow> files \<Rightarrow> string \<Rightarrow> jsval \<Rightarrow> files" where
  "saveUrl ok now fs url responseData =
     (let savedUrls = loadSavedUrls fs;
          savedUrls' = savedUrls(url \<mapsto> \<lparr>response = responseData, timestamp = now\<rparr>)
      in if ok then fs\<lparr>urls_file := Some savedUrls'\<rparr> else fs)"

definition clearSavedUrls :: "bool \<Rightarrow> files \<Rightarrow> files" where
  "clearSavedUrls ok fs = (if ok then fs\<lparr>urls_file := Some Map.empty\<rparr> else fs)"

definition loadAdditionalApis :: "files \<Rightarrow> api_config list" where
  "loadAdditionalApis fs = (case apis_dat fs of Some apis \<Rightarrow> apis | None \<Rightarrow> [])"

definition saveAdditionalApis :: "bool \<Rightarrow> files \<Rightarrow> api_config list \<Rightarrow> files" where
  "saveAdditionalApis ok fs apis = (if ok then fs\<lparr>apis_dat := Some apis\<rparr> else fs)"

definition addAdditionalApi :: "bool \<Rightarrow> files \<Rightarrow> api_config \<Rightarrow> bool \<times> files" where
  "addAdditionalApi ok fs newApi =
     (let additionalApis = loadAdditionalApis fs
      in if find (\<lambda>api. api_url api = api_url newApi) additionalApis \<noteq> None
         then (False, fs)
         else (True, saveAdditionalApis ok fs (additionalApis @ [newApi])))"

section \<open>The route \<^verbatim>\<open>POST /admin/add-api\<close>\<close>

text \<open>
  The handler behind the administrator's key. The body is absent, or a descriptor
  whose \<^verbatim>\<open>url\<close> may be empty. Each answer of the handler is a constructor:
  status 400; the two answers saying that the descriptor is already known (in the
  remote list, in the local file); status 500 when \<^verbatim>\<open>addAdditionalApi\<close> declined;
  and the answer carrying the descriptor that was added.
\<close>

datatype add_api_response =
    InvalidApiData
  | ExistsInGit
  | ExistsInApisDat
  | AddFailed
  | ApiAdded api_config

definition add_api_handler ::
  "remote_fetch \<Rightarrow> bool \<Rightarrow> files \<Rightarrow> api_config option \<Rightarrow> add_api_response \<times> files" where
  "add_api_handler remote ok fs body =
     (case body of
        None \<Rightarrow> (InvalidApiData, fs)
      | Some newApi \<Rightarrow>
          if api_url newApi = [] then (InvalidApiData, fs)
          else
            (let gitApis = loadApis remote
             in if find (\<lambda>api. api_url api = api_url newApi) gitApis \<noteq> None
                then (ExistsInGit, fs)
                else
                  (let additionalApis = loadAdditionalApis fs
                   in if find (\<lambda>api. api_url api = api_url newApi) additionalApis \<noteq> None
                      then (ExistsInApisDat, fs)
                      else
                        (case addAdditionalApi ok fs newApi of
                           (added, fs') \<Rightarrow>
                             if \<not> added then (AddFailed, fs') else (ApiAdded newApi, fs')))))"

text \<open>A sequence of requests to the route, each with the remote list it saw.\<close>

fun add_api_requests ::
  "files \<Rightarrow> (remote_fetch \<times> bool \<times> api_config option) list \<Rightarrow> files" where
  "add_api_requests fs [] = fs"
| "add_api_requests fs ((remote, ok, body) # reqs) =
     add_api_requests (snd (add_api_handler remote ok fs body)) reqs"


section \<open>BypassService\<close>

text \<open>
  What one upstream request observes of the outside world, per attempt:
  the outcome of \<^verbatim>\<open>axios.get\<close> (it rejects: timeout, transport error, error status,
  cancellation; or it resolves with \<^verbatim>\<open>response.data\<close>), the time it took, and the
  state of the abort signal when the \<^verbatim>\<open>catch\<close> block tests it and again when the
  following attempt starts after the delay. The observations are inputs: the model
  covers every schedule, including those no run produces.
\<close>

datatype net_reply = NetError | Response jsval

record try_obs =
  reply :: net_reply
  elapsed :: real
  aborted_in_catch :: bool
  aborted_after_delay :: bool

text \<open>The effects besides the statistics: a request sent, a delay awaited.\<close>

datatype event = NetCall string string | Delay real

record attempt =
  outcome :: "jsval option"
  tracker_after :: tracker
  trace :: "event list"
  settled_at :: real

definition extract_result :: "api_config \<Rightarrow> jsval \<Rightarrow> jsval option" where
  "extract_result apiConfig data =
     (if parse_json apiConfig then get_property data (response_key apiConfig) else Some data)"

text \<open>
  The \<^verbatim>\<open>try\<close> block: the value returned when the request resolves, the result is
  extracted without a TypeError and it is valid; \<open>None\<close> when control reaches the
  \<^verbatim>\<open>catch\<close> block.
\<close>

definition try_block :: "api_config \<Rightarrow> net_reply \<Rightarrow> jsval option" where
  "try_block apiConfig r =
     (case r of
        NetError \<Rightarrow> None
      | Response data \<Rightarrow>
          (case extract_result apiConfig data of
             None \<Rightarrow> None
           | Some result \<Rightarrow> if isValidResponse result then Some result else None))"

text \<open>
  \<^verbatim>\<open>_tryApiWithRetry(url, apiConfig, attempt, abortController)\<close>; \<open>aborted\<close> is
  the signal at entry, \<open>env\<close> the observations by attempt number, \<open>null\<close> is
  \<open>None\<close>. The request is sent to the template with the encoded \<open>url\<close> in place of
  the placeholder; the event keeps the two apart.
\<close>

function tryApiWithRetry ::
  "(nat \<Rightarrow> try_obs) \<Rightarrow> string \<Rightarrow> api_config \<Rightarrow> nat \<Rightarrow> bool \<Rightarrow> tracker \<Rightarrow> attempt" where
  "tryApiWithRetry env url apiConfig attempt aborted stats =
     (if aborted
      then \<lparr>outcome = None, tracker_after = stats, trace = [], settled_at = 0\<rparr>
      else if try_block apiConfig (reply (env attempt)) \<noteq> None
      then \<lparr>outcome = try_block apiConfig (reply (env attempt)),
            tracker_after = record_stat stats (api_url apiConfig) (elapsed (env attempt)) True,
            trace = [NetCall (api_url apiConfig) url],
            settled_at = elapsed (env attempt)\<rparr>
      else if attempt < RETRY_LIMIT \<and> \<not> aborted_in_catch (env attempt)
      then (let r = tryApiWithRetry env url apiConfig (attempt + 1)
                      (aborted_after_delay (env attempt))
                      (record_stat stats (api_url apiConfig) (elapsed (env attempt)) False)
            in r\<lparr>trace := NetCall (api_url apiConfig) url # Delay RETRY_DELAY # trace r,
                 settled_at := elapsed (env attempt) + RETRY_DELAY + settled_at r\<rparr>)
      else \<lparr>outcome = None,
            tracker_after = record_stat stats (api_url apiConfig) (elapsed (env attempt)) False,
            trace = [NetCall (api_url apiConfig) url],
            settled_at = elapsed (env attempt)\<rparr>)"
  by pat_completeness auto
termination
  by (relation "measure (\<lambda>(env, url, apiConfig, attempt, aborted, stats). RETRY_LIMIT - attempt)")
    auto

declare tryApiWithRetry.simps [simp del]

text \<open>
  \<^verbatim>\<open>firstValid(promises)\<close>, the promises taken in the order they settle:
  \<open>Pending\<close> when no handler settles the returned promise.
\<close>

datatype 'a promise = Pending | Resolved 'a | Rejected string

fun firstValid_settle :: "nat \<Rightarrow> nat \<Rightarrow> jsval option list \<Rightarrow> jsval promise" where
  "firstValid_settle n settledCount [] = Pending"
| "firstValid_settle n settledCount (p # ps) =
     (case p of
        Some result \<Rightarrow>
          if js_truthy result \<and> isValidResponse result then Resolved result
          else if settledCount + 1 = n then Rejected ''Nenhuma API conseguiu processar a URL''
          else firstValid_settle n (settledCount + 1) ps
      | None \<Rightarrow>
          if settledCount + 1 = n then Rejected ''Nenhuma API conseguiu processar a URL''
          else firstValid_settle n (settledCount + 1) ps)"

definition firstValid :: "jsval option list \<Rightarrow> jsval promise" where
  "firstValid promises = firstValid_settle (length promises) 0 promises"

text \<open>
  The requests of one call, launched together in list order. Each updates the shared
  statistics when it settles; the updates of different requests commute, so the
  statistics are threaded in launch order. Request \<open>i\<close> observes \<open>net i\<close>.
\<close>

fun launch ::
  "(nat \<Rightarrow> nat \<Rightarrow> try_obs) \<Rightarrow> string \<Rightarrow> nat \<Rightarrow> api_config list \<Rightarrow> tracker \<Rightarrow> attempt list" where
  "launch net url i [] stats = []"
| "launch net url i (api # apis) stats =
     (let a = tryApiWithRetry (net i) url api 1 False stats
      in a # launch net url (Suc i) apis (tracker_after a))"

definition final_tracker :: "tracker \<Rightarrow> attempt list \<Rightarrow> tracker" where
  "final_tracker stats requests = (if requests = [] then stats else tracker_after (last requests))"

text \<open>
  The server: the statistics in memory and the files on disk. One call of
  \<^verbatim>\<open>processUrl\<close> sees the outcome of the fetch of the remote list, the clock at the
  cache test and at the save, the network, and whether the save goes through. The
  promises are handed to \<^verbatim>\<open>firstValid\<close> in the order they settle, earliest first,
  and launch order among equals. The server returned is the state once every request
  of the call has settled.
\<close>

record server =
  stats :: tracker
  disk :: files

record resolve_env =
  remote :: remote_fetch
  now :: int
  now_saved :: int
  net :: "nat \<Rightarrow> nat \<Rightarrow> try_obs"
  write_ok :: bool

text \<open>
  The answer of \<^verbatim>\<open>processUrl\<close>: the result, and whether it carries the message
  member that marks an answer from the cache. The elapsed time and the fixed credits
  member are left out.
\<close>

record answer =
  result :: jsval
  recently_processed :: bool

datatype resolve_result = Threw string | Returned answer | NeverReturns

text \<open>The cache test of \<^verbatim>\<open>processUrl\<close>: the saved entry when it is present and fresh.\<close>

definition cached_entry :: "int \<Rightarrow> (string \<rightharpoonup> saved_url) \<Rightarrow> string \<Rightarrow> saved_url option" where
  "cached_entry t savedUrls url =
     (case savedUrls url of
        None \<Rightarrow> None
      | Some savedUrl \<Rightarrow> if t - timestamp savedUrl < CACHE_DURATION then Some savedUrl else None)"

definition processUrl ::
  "resolve_env \<Rightarrow> server \<Rightarrow> string \<Rightarrow> resolve_result \<times> server \<times> event list" where
  "processUrl env srv url =
     (let apis = loadApis (remote env)
      in if length apis = 0 then (Threw ''Nenhuma API configurada'', srv, [])
         else
           (let apis = sortApis (stats srv) apis;
                savedUrls = loadSavedUrls (disk srv)
            in case cached_entry (now env) savedUrls url of
                 Some savedUrl \<Rightarrow>
                   (Returned \<lparr>result = response savedUrl, recently_processed = True\<rparr>, srv, [])
               | None \<Rightarrow>
                   (let requests = launch (net env) url 0 apis (stats srv);
                        srv' = srv\<lparr>stats := final_tracker (stats srv) requests\<rparr>;
                        events = concat (map trace requests)
                    in case firstValid (map outcome (sort_key settled_at requests)) of
                         Resolved r \<Rightarrow>
                           (Returned \<lparr>result = r, recently_processed = False\<rparr>,
                            srv'\<lparr>disk := saveUrl (write_ok env) (now_saved env) (disk srv') url r\<rparr>,
                            events)
                       | Rejected message \<Rightarrow> (Threw message, srv', events)
                       | Pending \<Rightarrow> (NeverReturns, srv', events))))"

section \<open>Auxiliary notions of the statements\<close>

text \<open>
  What every entry of the statistics satisfies once it exists: the successes do not
  exceed the calls, there is at least one call, and without a success no time has
  been added.
\<close>

definition stat_ok :: "tracker_stat \<Rightarrow> bool" where
  "stat_ok s =
     (successCalls s \<le> totalCalls s \<and> 1 \<le> totalCalls s \<and> (successCalls s = 0 \<longrightarrow> totalTime s = 0))"

text \<open>
  The score as the specification words it: the average latency of the successes, or
  the large constant when there is no success, divided by the success rate floored at
  one tenth; infinite without a recorded attempt.
\<close>

definition claimed_score :: "tracker \<Rightarrow> string \<Rightarrow> jsnum" where
  "claimed_score st u =
     (case st u of
        None \<Rightarrow> PosInf
      | Some s \<Rightarrow>
          if totalCalls s = 0 then PosInf
          else
            (let avg = (if successCalls s = 0 then TIMEOUT else totalTime s / real (successCalls s));
                 rate = real (successCalls s) / real (totalCalls s)
             in Num (avg / max rate (1 / 10))))"

text \<open>The order the sort establishes: \<open>x\<close> may stand before \<open>y\<close>.\<close>

definition score_le :: "tracker \<Rightarrow> api_config \<Rightarrow> api_config \<Rightarrow> bool" where
  "score_le st x y = (\<not> js_less (getScore st (api_url y)) (getScore st (api_url x)))"

text \<open>
  The classification as the specification words it: a keyword matches when it occurs
  in the text, letter case ignored, as a whole word, that is with no word character
  right before or right after the occurrence; a text is valid when no error keyword
  matches and some success keyword does.
\<close>

fun occurs_here :: "string \<Rightarrow> string \<Rightarrow> bool" where
  "occurs_here [] rest = (case rest of [] \<Rightarrow> True | c # _ \<Rightarrow> \<not> is_word_char c)"
| "occurs_here (k # ks) [] = False"
| "occurs_here (k # ks) (c # cs) = (if to_upper k = to_upper c then occurs_here ks cs else False)"

definition occurs_at :: "string \<Rightarrow> char option \<Rightarrow> string \<Rightarrow> bool" where
  "occurs_at keyword prev rest =
     (if (case prev of None \<Rightarrow> True | Some p \<Rightarrow> \<not> is_word_char p)
      then occurs_here keyword rest else False)"

fun whole_word_search :: "string \<Rightarrow> char option \<Rightarrow> string \<Rightarrow> bool" where
  "whole_word_search keyword prev [] = occurs_at keyword prev []"
| "whole_word_search keyword prev (c # cs) =
     (if occurs_at keyword prev (c # cs) then True else whole_word_search keyword (Some c) cs)"

definition whole_word_match :: "string \<Rightarrow> string \<Rightarrow> bool" where
  "whole_word_match keyword text = whole_word_search keyword None text"

definition claimed_valid :: "string \<Rightarrow> bool" where
  "claimed_valid text =
     (\<not> list_ex (\<lambda>keyword. whole_word_match keyword text) ERROR_KEYWORDS
      \<and> list_ex (\<lambda>keyword. whole_word_match keyword text) SUCCESS_KEYWORDS)"

text \<open>
  A keyword that the pattern reads letter for letter: it has no dot, and it begins
  and ends with a word character.
\<close>

definition plain_keyword :: "string \<Rightarrow> bool" where
  "plain_keyword keyword =
     (keyword \<noteq> [] \<and> is_word_char (hd keyword) \<and> is_word_char (last keyword)
      \<and> CHR ''.'' \<notin> set keyword)"


text \<open>
  A text that contains a token, as the example of the specification has it: 32
  hexadecimal digits in a row somewhere in the text.
\<close>

fun contains_token :: "string \<Rightarrow> bool" where
  "contains_token [] = False"
| "contains_token (c # cs) = (if hex32_test (take 32 (c # cs)) then True else contains_token cs)"

section \<open>Properties of the tracker\<close>

lemma record_stat_same:
  "record_stat st u t ok u =
     Some \<lparr>totalCalls = (case st u of None \<Rightarrow> 0 | Some s \<Rightarrow> totalCalls s) + 1,
           successCalls = (case st u of None \<Rightarrow> 0 | Some s \<Rightarrow> successCalls s) + (if ok then 1 else 0),
           totalTime = (case st u of None \<Rightarrow> 0 | Some s \<Rightarrow> totalTime s) + (if ok then t else 0)\<rparr>"
  by (simp add: record_stat_def Let_def split: option.splits)

lemma record_stat_other: "v \<noteq> u \<Longrightarrow> record_stat st u t ok v = st v"
  by (simp add: record_stat_def Let_def)

lemma record_stat_ok:
  assumes "\<And>v s. st v = Some s \<Longrightarrow> stat_ok s"
    and "record_stat st u t ok v = Some s"
  shows "stat_ok s"
proof (cases "v = u")
  case True
  with assms(2) have eq: "s = \<lparr>totalCalls = (case st u of None \<Rightarrow> 0 | Some s \<Rightarrow> totalCalls s) + 1,
           successCalls = (case st u of None \<Rightarrow> 0 | Some s \<Rightarrow> successCalls s) + (if ok then 1 else 0),
           totalTime = (case st u of None \<Rightarrow> 0 | Some s \<Rightarrow> totalTime s) + (if ok then t else 0)\<rparr>"
    by (simp add: record_stat_same)
  show ?thesis
  proof (cases "st u")
    case None
    with eq show ?thesis by (simp add: stat_ok_def)
  next
    case (Some s0)
    with assms(1) have "stat_ok s0" by blast
    with eq Some show ?thesis by (simp add: stat_ok_def)
  qed
next
  case False
  with assms show ?thesis by (simp add: record_stat_other)
qed

lemma record_all_ok:
  "(\<And>v s. st v = Some s \<Longrightarrow> stat_ok s) \<Longrightarrow> record_all st calls v = Some s \<Longrightarrow> stat_ok s"
proof (induction calls arbitrary: st v s)
  case Nil
  then show ?case by simp
next
  case (Cons c calls)
  obtain u t ok where c: "c = (u, t, ok)" by (cases c) auto
  have step: "\<And>v s. record_stat st u t ok v = Some s \<Longrightarrow> stat_ok s"
    using Cons.prems(1) record_stat_ok by blast
  from Cons.prems(2) c have "record_all (record_stat st u t ok) calls v = Some s" by simp
  from Cons.IH[OF step this] show ?case .
qed

lemma reachable_stat_ok: "record_all Map.empty calls v = Some s \<Longrightarrow> stat_ok s"
  using record_all_ok[of Map.empty calls v s] by simp

text \<open>
  Claim C8. Starting from the empty statistics, after each call of a sequence of
  \<^verbatim>\<open>record\<close> calls (that is, after every prefix of the sequence) the successes of
  an endpoint do not exceed its calls. One call adds one to the calls of its endpoint,
  adds one to the successes and the elapsed time to the cumulative time exactly when
  it reports a success, and leaves every other endpoint as it was.
\<close>

theorem record_success_le_total:
  "(case record_all Map.empty (take n calls) u of
      None \<Rightarrow> True
    | Some s \<Rightarrow> successCalls s \<le> totalCalls s)
   \<and> record_stat st u t ok u =
       Some \<lparr>totalCalls = (case st u of None \<Rightarrow> 0 | Some s \<Rightarrow> totalCalls s) + 1,
             successCalls = (case st u of None \<Rightarrow> 0 | Some s \<Rightarrow> successCalls s) + (if ok then 1 else 0),
             totalTime = (case st u of None \<Rightarrow> 0 | Some s \<Rightarrow> totalTime s) + (if ok then t else 0)\<rparr>
   \<and> (\<forall>v. v \<noteq> u \<longrightarrow> record_stat st u t ok v = st v)"
proof -
  have "case record_all Map.empty (take n calls) u of
      None \<Rightarrow> True
    | Some s \<Rightarrow> successCalls s \<le> totalCalls s"
    using reachable_stat_ok[of "take n calls" u] by (auto simp: stat_ok_def split: option.splits)
  then show ?thesis by (simp add: record_stat_same record_stat_other)
qed

theorem record_success_le_total_witness:
  "record_all Map.empty [(''a'', 120, True), (''a'', 30, False), (''b'', 7, False)] ''a''
     = Some \<lparr>totalCalls = 2, successCalls = 1, totalTime = 120\<rparr>
   \<and> record_all Map.empty (take 1 [(''a'', 120, True), (''a'', 30, False), (''b'', 7, False)]) ''a''
     = Some \<lparr>totalCalls = 1, successCalls = 1, totalTime = 120\<rparr>
   \<and> record_stat Map.empty ''b'' 7 False ''b'' = Some \<lparr>totalCalls = 1, successCalls = 0, totalTime = 0\<rparr>"
  using record_success_le_total[of 1 "[(''a'', 120, True), (''a'', 30, False), (''b'', 7, False)]" "''a''" Map.empty 7 False]
  by (simp add: record_stat_def)

text \<open>
  Claim C2, as stated, fails. After one success of 100 ms and nineteen failures the
  success rate is one twentieth, strictly between zero and one tenth. The code
  divides the average latency by that rate (score 2000); with the rate floored at
  one tenth the score would be 1000.
\<close>

theorem score_floor_counterexample:
  "getScore (record_all Map.empty ((''a'', 100, True) # replicate 19 (''a'', 5, False))) ''a'' = Num 2000
   \<and> claimed_score (record_all Map.empty ((''a'', 100, True) # replicate 19 (''a'', 5, False))) ''a'' = Num 1000
   \<and> getScore (record_all Map.empty ((''a'', 100, True) # replicate 19 (''a'', 5, False))) ''a''
       \<noteq> claimed_score (record_all Map.empty ((''a'', 100, True) # replicate 19 (''a'', 5, False))) ''a''"
  by (simp add: getScore_def claimed_score_def record_stat_def js_or_def TIMEOUT_def Let_def eval_nat_numeral)

lemma positive_times_ok:
  "(\<And>v s. st v = Some s \<Longrightarrow> 0 \<le> totalTime s \<and> (0 < successCalls s \<longrightarrow> 0 < totalTime s)) \<Longrightarrow>
   list_all (\<lambda>(u, t, ok). 0 < t) calls \<Longrightarrow>
   record_all st calls v = Some s \<Longrightarrow> 0 \<le> totalTime s \<and> (0 < successCalls s \<longrightarrow> 0 < totalTime s)"
proof (induction calls arbitrary: st v s)
  case Nil
  then show ?case by simp
next
  case (Cons c calls)
  obtain u t ok where c: "c = (u, t, ok)" by (cases c) auto
  with Cons.prems(2) have t: "0 < t" and rest: "list_all (\<lambda>(u, t, ok). 0 < t) calls" by auto
  have step: "\<And>v s. record_stat st u t ok v = Some s \<Longrightarrow>
      0 \<le> totalTime s \<and> (0 < successCalls s \<longrightarrow> 0 < totalTime s)"
  proof -
    fix v s assume a: "record_stat st u t ok v = Some s"
    show "0 \<le> totalTime s \<and> (0 < successCalls s \<longrightarrow> 0 < totalTime s)"
    proof (cases "v = u")
      case True
      with a show ?thesis using Cons.prems(1)[of u] t
        by (cases "st u") (auto simp: record_stat_same add_nonneg_pos split: if_splits)
    next
      case False
      with a Cons.prems(1)[of v s] show ?thesis by (simp add: record_stat_other)
    qed
  qed
  from Cons.prems(3) c have "record_all (record_stat st u t ok) calls v = Some s" by simp
  from Cons.IH[OF step rest this] show ?case .
qed

text \<open>
  Claim C2, amended. For statistics recorded with positive elapsed times, the score
  of an endpoint without an entry is infinite; otherwise it is the average latency
  of the successes, or the constant 60000 exactly when there is no success, divided
  by the success rate, where only a rate of exactly zero is replaced by one tenth.
  A rate strictly between zero and one tenth divides as it is.
\<close>

theorem score_formula:
  assumes "list_all (\<lambda>(u, t, ok). 0 < t) calls"
  shows "getScore (record_all Map.empty calls) u =
     (case record_all Map.empty calls u of
        None \<Rightarrow> PosInf
      | Some s \<Rightarrow>
          Num ((if successCalls s = 0 then TIMEOUT else totalTime s / real (successCalls s))
               / (if successCalls s = 0 then 1 / 10 else real (successCalls s) / real (totalCalls s))))"
proof (cases "record_all Map.empty calls u")
  case None
  then show ?thesis by (simp add: getScore_def)
next
  case (Some s)
  have ok: "stat_ok s" using Some by (rule reachable_stat_ok)
  have pos: "0 < successCalls s \<Longrightarrow> 0 < totalTime s"
    using positive_times_ok[of Map.empty calls u s] assms Some by simp
  show ?thesis
  proof (cases "successCalls s = 0")
    case True
    with ok Some show ?thesis
      by (simp add: getScore_def stat_ok_def js_or_def TIMEOUT_def Let_def)
  next
    case False
    with pos have "0 < totalTime s" by simp
    with False ok Some show ?thesis
      by (simp add: getScore_def stat_ok_def js_or_def Let_def)
  qed
qed

theorem score_formula_witness:
  "list_all (\<lambda>(u, t, ok). (0::real) < t) ((''a'', 100, True) # replicate 19 (''a'', 5, False))
   \<and> getScore (record_all Map.empty ((''a'', 100, True) # replicate 19 (''a'', 5, False))) ''a''
       = Num ((100 / 1) / (1 / 20))
   \<and> getScore (record_all Map.empty ((''a'', 100, True) # replicate 19 (''a'', 5, False))) ''b'' = PosInf"
proof -
  have h: "list_all (\<lambda>(u, t, ok). (0::real) < t) ((''a'', 100, True) # replicate 19 (''a'', 5, False))"
    by (simp add: eval_nat_numeral)
  show ?thesis
    using h score_formula[OF h, of "''a''"] score_formula[OF h, of "''b''"]
    by (simp add: record_stat_def eval_nat_numeral)
qed

lemma avgTime_truthy:
  "js_truthy_num (js_or (js_div (Num t) (Num c)) (Num TIMEOUT))"
  by (simp add: js_or_def TIMEOUT_def)

lemma successRate_or:
  "tc \<noteq> 0 \<Longrightarrow>
   js_or (js_div (Num (real sc)) (Num (real tc))) (Num (1 / 10))
     = Num (if sc = 0 then 1 / 10 else real sc / real tc)"
  by (simp add: js_or_def)

lemma js_div_truthy_not_NaN: "js_truthy_num v \<Longrightarrow> r \<noteq> 0 \<Longrightarrow> js_div v (Num r) \<noteq> NaN"
  by (cases v) auto

lemma getScore_Some:
  "st u = Some s \<Longrightarrow> totalCalls s \<noteq> 0 \<Longrightarrow>
   getScore st u =
     js_div (js_or (js_div (Num (totalTime s)) (Num (real (successCalls s)))) (Num TIMEOUT))
            (Num (if successCalls s = 0 then 1 / 10 else real (successCalls s) / real (totalCalls s)))"
proof -
  assume a: "st u = Some s" "totalCalls s \<noteq> 0"
  have "getScore st u =
     js_div (js_or (js_div (Num (totalTime s)) (Num (real (successCalls s)))) (Num TIMEOUT))
            (js_or (js_div (Num (real (successCalls s))) (Num (real (totalCalls s)))) (Num (1 / 10)))"
    unfolding getScore_def Let_def a(1) option.case using a(2) by (simp only: if_False)
  then show ?thesis by (simp only: successRate_or[OF a(2)])
qed

lemma getScore_not_NaN: "getScore st u \<noteq> NaN"
proof (cases "st u")
  case None
  then show ?thesis by (simp add: getScore_def)
next
  case (Some s)
  show ?thesis
  proof (cases "totalCalls s = 0")
    case True
    with Some show ?thesis by (simp add: getScore_def)
  next
    case False
    have "(if successCalls s = 0 then 1 / 10 else real (successCalls s) / real (totalCalls s)) \<noteq> 0"
      using False by simp
    then have "js_div (js_or (js_div (Num (totalTime s)) (Num (real (successCalls s)))) (Num TIMEOUT))
                 (Num (if successCalls s = 0 then 1 / 10 else real (successCalls s) / real (totalCalls s))) \<noteq> NaN"
      by (rule js_div_truthy_not_NaN[OF avgTime_truthy])
    moreover note getScore_Some[of st u s]
    ultimately show ?thesis using Some False by simp
  qed
qed

lemma positive_compare:
  "a \<noteq> NaN \<Longrightarrow> b \<noteq> NaN \<Longrightarrow> js_less (Num 0) (js_sub a b) = js_less b a"
  by (cases a; cases b) auto

lemma js_less_negtrans:
  "b \<noteq> NaN \<Longrightarrow> \<not> js_less b a \<Longrightarrow> \<not> js_less c b \<Longrightarrow> \<not> js_less c a"
  by (cases a; cases b; cases c) auto

lemma js_less_total: "a \<noteq> NaN \<Longrightarrow> b \<noteq> NaN \<Longrightarrow> js_less a b \<Longrightarrow> \<not> js_less b a"
  by (cases a; cases b) auto

lemma compare_positive_iff:
  "js_less (Num 0) (compare_apis st a b) = (\<not> score_le st a b)"
  by (simp add: compare_apis_def Let_def score_le_def positive_compare getScore_not_NaN)

lemma score_le_trans: "score_le st x y \<Longrightarrow> score_le st y z \<Longrightarrow> score_le st x z"
  unfolding score_le_def using js_less_negtrans[OF getScore_not_NaN] by blast

lemma score_le_linear: "\<not> score_le st x y \<Longrightarrow> score_le st y x"
  unfolding score_le_def using js_less_total[OF getScore_not_NaN getScore_not_NaN] by blast

lemma set_insert_api: "set (insert_api st a bs) = insert a (set bs)"
  by (induction bs) (auto)

lemma length_insert_api: "length (insert_api st a bs) = Suc (length bs)"
  by (induction bs) auto

lemma sorted_insert_api:
  "sorted_wrt (score_le st) bs \<Longrightarrow> sorted_wrt (score_le st) (insert_api st a bs)"
proof (induction bs)
  case Nil
  then show ?case by simp
next
  case (Cons b bs)
  show ?case
  proof (cases "score_le st a b")
    case True
    have "\<forall>y\<in>set bs. score_le st a y"
      using Cons.prems True score_le_trans by auto
    with True Cons.prems show ?thesis by (simp add: compare_positive_iff)
  next
    case False
    then have "score_le st b a" by (rule score_le_linear)
    with False Cons show ?thesis by (auto simp: compare_positive_iff set_insert_api)
  qed
qed

lemma sorted_sortApis: "sorted_wrt (score_le st) (sortApis st apis)"
  unfolding sortApis_def by (induction apis) (simp_all add: sorted_insert_api)

lemma set_sortApis: "set (sortApis st apis) = set apis"
  unfolding sortApis_def by (induction apis) (simp_all add: set_insert_api)

lemma length_sortApis: "length (sortApis st apis) = length apis"
  unfolding sortApis_def by (induction apis) (simp_all add: length_insert_api)

lemma score_success_finite:
  assumes "st a = Some s" "1 \<le> successCalls s" "1 \<le> totalCalls s"
  shows "\<exists>x. getScore st a = Num x"
proof -
  have "\<exists>x. x \<noteq> 0 \<and> js_or (js_div (Num (totalTime s)) (Num (real (successCalls s)))) (Num TIMEOUT) = Num x"
    using assms(2) by (auto simp: js_or_def TIMEOUT_def)
  moreover have "\<exists>r. r \<noteq> 0 \<and> js_or (js_div (Num (real (successCalls s))) (Num (real (totalCalls s)))) (Num (1 / 10)) = Num r"
    using assms(2,3) by (auto simp: js_or_def)
  ultimately show ?thesis using assms by (auto simp: getScore_def Let_def)
qed

text \<open>
  Claim C7. In statistics built by \<^verbatim>\<open>record\<close> calls, let endpoint \<open>a\<close> have at
  least one recorded success and endpoint \<open>b\<close> no recorded attempt. Then the score
  of \<open>a\<close> is strictly below the score of \<open>b\<close>, and in the list that
  \<^verbatim>\<open>sortApis\<close> returns (a rearrangement of its input) every descriptor of \<open>a\<close>
  stands before every descriptor of \<open>b\<close>.
\<close>

theorem unknown_ranks_last:
  assumes known: "record_all Map.empty calls a = Some s" "1 \<le> successCalls s"
    and unknown: "record_all Map.empty calls b = None"
  shows "js_less (getScore (record_all Map.empty calls) a) (getScore (record_all Map.empty calls) b)
    \<and> set (sortApis (record_all Map.empty calls) apis) = set apis
    \<and> length (sortApis (record_all Map.empty calls) apis) = length apis
    \<and> (\<forall>i j. i < length apis \<and> j < length apis
          \<and> api_url (sortApis (record_all Map.empty calls) apis ! i) = a
          \<and> api_url (sortApis (record_all Map.empty calls) apis ! j) = b \<longrightarrow> i < j)"
proof -
  let ?st = "record_all Map.empty calls"
  let ?ys = "sortApis ?st apis"
  have ok: "stat_ok s" using known(1) by (rule reachable_stat_ok)
  then have "1 \<le> totalCalls s" by (simp add: stat_ok_def)
  with score_success_finite[of ?st a s] known obtain x where x: "getScore ?st a = Num x" by blast
  have inf: "getScore ?st b = PosInf" using unknown by (simp add: getScore_def)
  have less: "js_less (getScore ?st a) (getScore ?st b)" using x inf by simp
  have order: "i < j" if h: "i < length apis" "j < length apis" "api_url (?ys ! i) = a" "api_url (?ys ! j) = b" for i j
  proof (rule ccontr)
    assume "\<not> i < j"
    then consider "i = j" | "j < i" by linarith
    then show False
    proof cases
      case 1
      with h have "a = b" by simp
      with known(1) unknown show False by simp
    next
      case 2
      have "score_le ?st (?ys ! j) (?ys ! i)"
        using sorted_sortApis[of ?st apis] 2 h(1) by (simp add: sorted_wrt_iff_nth_less length_sortApis)
      with h(3,4) less show False by (simp add: score_le_def)
    qed
  qed
  from less order show ?thesis by (simp add: set_sortApis length_sortApis)
qed


theorem unknown_ranks_last_witness:
  "record_all Map.empty [(''k'', 150, True), (''k'', 20, False)] ''k''
     = Some \<lparr>totalCalls = 2, successCalls = 1, totalTime = 150\<rparr>
   \<and> record_all Map.empty [(''k'', 150, True), (''k'', 20, False)] ''u'' = None
   \<and> js_less (getScore (record_all Map.empty [(''k'', 150, True), (''k'', 20, False)]) ''k'')
              (getScore (record_all Map.empty [(''k'', 150, True), (''k'', 20, False)]) ''u'')
   \<and> sortApis (record_all Map.empty [(''k'', 150, True), (''k'', 20, False)])
        [\<lparr>api_url = ''u'', parse_json = False, response_key = ''r''\<rparr>,
         \<lparr>api_url = ''k'', parse_json = False, response_key = ''r''\<rparr>]
      = [\<lparr>api_url = ''k'', parse_json = False, response_key = ''r''\<rparr>,
         \<lparr>api_url = ''u'', parse_json = False, response_key = ''r''\<rparr>]"
proof -
  have k: "record_all Map.empty [(''k'', 150, True), (''k'', 20, False)] ''k''
     = Some \<lparr>totalCalls = 2, successCalls = 1, totalTime = 150\<rparr>"
    by (simp add: record_stat_def)
  have u: "record_all Map.empty [(''k'', 150, True), (''k'', 20, False)] ''u'' = None"
    by (simp add: record_stat_def)
  have s: "1 \<le> successCalls \<lparr>totalCalls = 2, successCalls = 1, totalTime = 150\<rparr>"
    by simp
  have less: "js_less (getScore (record_all Map.empty [(''k'', 150, True), (''k'', 20, False)]) ''k'')
              (getScore (record_all Map.empty [(''k'', 150, True), (''k'', 20, False)]) ''u'')"
    using unknown_ranks_last[OF k s u, of "[]"] by simp
  have sorted: "sortApis (record_all Map.empty [(''k'', 150, True), (''k'', 20, False)])
        [\<lparr>api_url = ''u'', parse_json = False, response_key = ''r''\<rparr>,
         \<lparr>api_url = ''k'', parse_json = False, response_key = ''r''\<rparr>]
      = [\<lparr>api_url = ''k'', parse_json = False, response_key = ''r''\<rparr>,
         \<lparr>api_url = ''u'', parse_json = False, response_key = ''r''\<rparr>]"
    by (simp add: sortApis_def compare_apis_def getScore_def record_stat_def js_or_def Let_def)
  from k u less sorted show ?thesis by simp
qed

text \<open>Two \<^verbatim>\<open>record\<close> calls commute, whatever their endpoints.\<close>

lemma record_stat_commute:
  "record_stat (record_stat st u1 t1 b1) u2 t2 b2 = record_stat (record_stat st u2 t2 b2) u1 t1 b1"
  by (rule ext) (auto simp: record_stat_def Let_def split: option.splits)

section \<open>Properties of the classifier\<close>

lemma isValidResponse_falsy: "\<not> js_truthy r \<Longrightarrow> \<not> isValidResponse r"
  by (simp add: isValidResponse_def)

lemma toString_truthy: "js_truthy (JStr text) = (text \<noteq> [])" "toString (JStr text) = text"
  by (simp_all add: toString_def)

lemma isValidResponse_keywords:
  "js_truthy r \<Longrightarrow> toString r \<noteq> [] \<Longrightarrow> \<not> hex32_test (toString r) \<Longrightarrow>
   isValidResponse r =
     (\<not> list_ex (\<lambda>keyword. keyword_test keyword (toString r)) ERROR_KEYWORDS
      \<and> list_ex (\<lambda>keyword. keyword_test keyword (toString r)) SUCCESS_KEYWORDS)"
  by (simp add: isValidResponse_def isErrorResponse_def isSuccessResponse_def Let_def
        toString_truthy)

text \<open>
  The case folding and the word class of the characters the keywords are made of,
  computed once; the evaluations below rewrite with them.
\<close>

lemma to_upper_chars:
  "to_upper CHR '' '' = CHR '' ''"
  "to_upper CHR ''.'' = CHR ''.''"
  "to_upper CHR ''0'' = CHR ''0''"
  "to_upper CHR ''4'' = CHR ''4''"
  "to_upper CHR '':'' = CHR '':''"
  "to_upper CHR ''E'' = CHR ''E''"
  "to_upper CHR ''F'' = CHR ''F''"
  "to_upper CHR ''G'' = CHR ''G''"
  "to_upper CHR ''H'' = CHR ''H''"
  "to_upper CHR ''N'' = CHR ''N''"
  "to_upper CHR ''P'' = CHR ''P''"
  "to_upper CHR ''R'' = CHR ''R''"
  "to_upper CHR ''Y'' = CHR ''Y''"
  "to_upper CHR ''a'' = CHR ''A''"
  "to_upper CHR ''b'' = CHR ''B''"
  "to_upper CHR ''c'' = CHR ''C''"
  "to_upper CHR ''d'' = CHR ''D''"
  "to_upper CHR ''e'' = CHR ''E''"
  "to_upper CHR ''f'' = CHR ''F''"
  "to_upper CHR ''g'' = CHR ''G''"
  "to_upper CHR ''h'' = CHR ''H''"
  "to_upper CHR ''i'' = CHR ''I''"
  "to_upper CHR ''k'' = CHR ''K''"
  "to_upper CHR ''l'' = CHR ''L''"
  "to_upper CHR ''m'' = CHR ''M''"
  "to_upper CHR ''n'' = CHR ''N''"
  "to_upper CHR ''o'' = CHR ''O''"
  "to_upper CHR ''p'' = CHR ''P''"
  "to_upper CHR ''r'' = CHR ''R''"
  "to_upper CHR ''s'' = CHR ''S''"
  "to_upper CHR ''t'' = CHR ''T''"
  "to_upper CHR ''u'' = CHR ''U''"
  "to_upper CHR ''v'' = CHR ''V''"
  "to_upper CHR ''w'' = CHR ''W''"
  "to_upper CHR ''y'' = CHR ''Y''"
  "to_upper CHR ''z'' = CHR ''Z''"
  by code_simp+

lemma is_word_chars:
  "is_word_char CHR '' '' = False"
  "is_word_char CHR ''.'' = False"
  "is_word_char CHR ''0'' = True"
  "is_word_char CHR ''4'' = True"
  "is_word_char CHR '':'' = False"
  "is_word_char CHR ''E'' = True"
  "is_word_char CHR ''F'' = True"
  "is_word_char CHR ''G'' = True"
  "is_word_char CHR ''H'' = True"
  "is_word_char CHR ''N'' = True"
  "is_word_char CHR ''P'' = True"
  "is_word_char CHR ''R'' = True"
  "is_word_char CHR ''Y'' = True"
  "is_word_char CHR ''a'' = True"
  "is_word_char CHR ''b'' = True"
  "is_word_char CHR ''c'' = True"
  "is_word_char CHR ''d'' = True"
  "is_word_char CHR ''e'' = True"
  "is_word_char CHR ''f'' = True"
  "is_word_char CHR ''g'' = True"
  "is_word_char CHR ''h'' = True"
  "is_word_char CHR ''i'' = True"
  "is_word_char CHR ''k'' = True"
  "is_word_char CHR ''l'' = True"
  "is_word_char CHR ''m'' = True"
  "is_word_char CHR ''n'' = True"
  "is_word_char CHR ''o'' = True"
  "is_word_char CHR ''p'' = True"
  "is_word_char CHR ''r'' = True"
  "is_word_char CHR ''s'' = True"
  "is_word_char CHR ''t'' = True"
  "is_word_char CHR ''u'' = True"
  "is_word_char CHR ''v'' = True"
  "is_word_char CHR ''w'' = True"
  "is_word_char CHR ''y'' = True"
  "is_word_char CHR ''z'' = True"
  by code_simp+

lemma dot_not_terminator: "is_line_terminator CHR ''.'' = False"
  by code_simp

lemmas kw_eval = isSuccessResponse_def isErrorResponse_def SUCCESS_KEYWORDS_def ERROR_KEYWORDS_def
  keyword_test_def atom_of_def word_boundary_def match_at_def toString_def to_upper_chars is_word_chars
  dot_not_terminator

text \<open>
  A token is made of word characters only, so a keyword can match it only as a
  whole, and no configured keyword has 32 characters.
\<close>

lemma hex_is_word: "is_hex_char c \<Longrightarrow> is_word_char c"
  by (auto simp: is_hex_char_def is_word_char_def Let_def)

lemma match_here_word_text:
  "list_all is_word_char s \<Longrightarrow> atoms \<noteq> [] \<Longrightarrow> match_here atoms prev s \<Longrightarrow>
   length atoms = length s"
proof (induction atoms arbitrary: prev s)
  case Nil
  then show ?case by simp
next
  case (Cons a atoms)
  from Cons.prems(3) obtain c cs where s: "s = c # cs" by (cases s) auto
  with Cons.prems have c: "is_word_char c" and cs: "list_all is_word_char cs"
    and m: "match_here atoms (Some c) cs" by (auto split: if_splits)
  show ?case
  proof (cases "atoms = []")
    case True
    with m c cs have "cs = []" by (cases cs) (auto simp: word_boundary_def)
    with True s show ?thesis by simp
  next
    case False
    from Cons.IH[OF cs False m] s show ?thesis by simp
  qed
qed

lemma search_inside_word:
  "list_all is_word_char s \<Longrightarrow> is_word_char p \<Longrightarrow> atoms \<noteq> [] \<Longrightarrow>
   \<not> search atoms (Some p) s"
proof (induction s arbitrary: p)
  case Nil
  then show ?case by (cases atoms) (auto simp: match_at_def)
next
  case (Cons c cs)
  then show ?case by (auto simp: match_at_def word_boundary_def)
qed

lemma keyword_test_word_text:
  assumes "list_all is_word_char s" "keyword \<noteq> []" "keyword_test keyword s"
  shows "length keyword = length s"
proof (cases s)
  case Nil
  with assms show ?thesis
    by (cases keyword) (auto simp: keyword_test_def match_at_def word_boundary_def)
next
  case (Cons c cs)
  with assms(1) have c: "is_word_char c" and cs: "list_all is_word_char cs" by auto
  have "\<not> search (map atom_of keyword) (Some c) cs"
    using search_inside_word[OF cs c] assms(2) by simp
  with assms(3) Cons have "match_here (map atom_of keyword) None s"
    by (auto simp: keyword_test_def match_at_def split: if_splits)
  from match_here_word_text[OF assms(1) _ this] assms(2) show ?thesis by simp
qed

lemma keywords_not_32:
  "list_all (\<lambda>keyword. keyword \<noteq> [] \<and> length keyword \<noteq> 32) ERROR_KEYWORDS"
  "list_all (\<lambda>keyword. keyword \<noteq> [] \<and> length keyword \<noteq> 32) SUCCESS_KEYWORDS"
  by (simp_all add: ERROR_KEYWORDS_def SUCCESS_KEYWORDS_def)

lemma no_keyword_on_token:
  assumes "hex32_test s"
    and "list_all (\<lambda>keyword. keyword \<noteq> [] \<and> length keyword \<noteq> 32) kws"
  shows "\<not> list_ex (\<lambda>keyword. keyword_test keyword s) kws"
proof -
  from assms(1) have w: "list_all is_word_char s" and l: "length s = 32"
    by (auto simp: hex32_test_def list_all_iff hex_is_word)
  show ?thesis
    using assms(2) keyword_test_word_text[OF w] l
    by (auto simp: list_all_iff list_ex_iff)
qed

text \<open>
  Claim C3, as stated, fails. The pattern is anchored at both ends: the shortcut is
  for a text that is a token, not for a text in which a token stands beside keywords.
  The text below contains a token and the word \<^verbatim>\<open>error\<close>; it does not pass the
  pattern test, the error keyword matches, and the code classifies it as invalid.
\<close>

theorem embedded_token_counterexample:
  "contains_token ''error deadbeef40deadbeef40deadbEEF4004''
   \<and> \<not> hex32_test ''error deadbeef40deadbeef40deadbEEF4004''
   \<and> isErrorResponse (JStr ''error deadbeef40deadbeef40deadbEEF4004'')
   \<and> \<not> isValidResponse (JStr ''error deadbeef40deadbeef40deadbEEF4004'')"
proof -
  have c: "contains_token ''error deadbeef40deadbeef40deadbEEF4004''"
    by (simp add: hex32_test_def is_hex_char_def)
  have h: "\<not> hex32_test ''error deadbeef40deadbeef40deadbEEF4004''"
    by (simp add: hex32_test_def)
  have e: "isErrorResponse (JStr ''error deadbeef40deadbeef40deadbEEF4004'')"
    by (simp add: kw_eval)
  from c h e show ?thesis by (simp add: isValidResponse_def toString_def Let_def)
qed

text \<open>
  Claim C3, amended. A response text that is a token, exactly 32 hexadecimal digits
  and nothing else, is classified valid. On such a text no error keyword and no
  success keyword matches, so the keyword tests alone would reject it: the shortcut
  is what makes it valid. The same holds for every truthy response whose text form
  is a token.
\<close>

theorem hex32_token_valid:
  assumes "hex32_test s"
  shows "isValidResponse (JStr s)
    \<and> \<not> isErrorResponse (JStr s)
    \<and> \<not> isSuccessResponse (JStr s)
    \<and> (\<forall>r. js_truthy r \<and> toString r = s \<longrightarrow> isValidResponse r)"
proof -
  from assms have ne: "s \<noteq> []" by (auto simp: hex32_test_def)
  have e: "\<not> list_ex (\<lambda>keyword. keyword_test keyword s) ERROR_KEYWORDS"
    by (rule no_keyword_on_token[OF assms keywords_not_32(1)])
  have k: "\<not> list_ex (\<lambda>keyword. keyword_test keyword s) SUCCESS_KEYWORDS"
    by (rule no_keyword_on_token[OF assms keywords_not_32(2)])
  from assms ne e k show ?thesis
    by (simp add: isValidResponse_def isErrorResponse_def isSuccessResponse_def toString_def)
qed

theorem hex32_token_valid_witness:
  "hex32_test ''deadbeef40deadbeef40deadbEEF4004''
   \<and> isValidResponse (JStr ''deadbeef40deadbeef40deadbEEF4004'')
   \<and> \<not> isErrorResponse (JStr ''deadbeef40deadbeef40deadbEEF4004'')
   \<and> \<not> isSuccessResponse (JStr ''deadbeef40deadbeef40deadbEEF4004'')"
proof -
  have h: "hex32_test ''deadbeef40deadbeef40deadbEEF4004''"
    by (simp add: hex32_test_def is_hex_char_def)
  from hex32_token_valid[OF h] h show ?thesis by simp
qed

text \<open>
  For a keyword read letter for letter, the pattern test is the whole-word match of
  the specification. Every configured keyword but one is of this kind.
\<close>

lemma is_word_char_to_upper: "is_word_char (to_upper c) = is_word_char c"
proof -
  have "(of_char (char_of (of_char c - 32 :: nat)) :: nat) = of_char c - 32"
    if "97 \<le> (of_char c :: nat)" "(of_char c :: nat) \<le> 122"
    using that by simp
  then show ?thesis
    by (auto simp: is_word_char_def to_upper_def Let_def)
qed

lemma same_fold_word_char: "to_upper k = to_upper c \<Longrightarrow> is_word_char k = is_word_char c"
  by (metis is_word_char_to_upper)

lemma atoms_plain: "CHR ''.'' \<notin> set keyword \<Longrightarrow> map atom_of keyword = map Lit keyword"
  by (induction keyword) (auto simp: atom_of_def)

lemma match_here_occurs:
  "keyword \<noteq> [] \<Longrightarrow> is_word_char (last keyword) \<Longrightarrow>
   match_here (map Lit keyword) prev rest = occurs_here keyword rest"
proof (induction keyword arbitrary: prev rest)
  case Nil
  then show ?case by simp
next
  case (Cons k ks)
  show ?case
  proof (cases rest)
    case Nil
    then show ?thesis by simp
  next
    case (Cons c cs)
    show ?thesis
    proof (cases "ks = []")
      case True
      with Cons.prems have "is_word_char k" by simp
      then have "to_upper k = to_upper c \<Longrightarrow> is_word_char c"
        using same_fold_word_char by blast
      with True Cons show ?thesis
        by (auto simp: word_boundary_def split: list.splits)
    next
      case False
      with Cons.prems have "is_word_char (last ks)" by simp
      from Cons.IH[OF False this] Cons show ?thesis by simp
    qed
  qed
qed

lemma occurs_here_first:
  "occurs_here (k # ks) rest \<Longrightarrow> \<exists>c cs. rest = c # cs \<and> to_upper k = to_upper c"
  by (cases rest) (auto split: if_splits)

lemma match_at_occurs:
  assumes "plain_keyword keyword"
  shows "match_at (map atom_of keyword) prev rest = occurs_at keyword prev rest"
proof -
  from assms obtain k ks where kw: "keyword = k # ks" and k: "is_word_char k"
    and l: "is_word_char (last keyword)" and d: "CHR ''.'' \<notin> set keyword"
    by (cases keyword) (auto simp: plain_keyword_def)
  have m: "match_here (map Lit keyword) prev rest = occurs_here keyword rest"
    using match_here_occurs[of keyword prev rest] kw l by simp
  show ?thesis
  proof (cases "occurs_here keyword rest")
    case False
    with m d show ?thesis by (simp add: match_at_def occurs_at_def atoms_plain)
  next
    case True
    with kw obtain c cs where r: "rest = c # cs" "to_upper k = to_upper c"
      using occurs_here_first by blast
    with k have "is_word_char c" using same_fold_word_char by blast
    with r have "word_boundary prev rest = (case prev of None \<Rightarrow> True | Some p \<Rightarrow> \<not> is_word_char p)"
      by (simp add: word_boundary_def split: option.splits)
    with m d show ?thesis by (simp add: match_at_def occurs_at_def atoms_plain)
  qed
qed

lemma search_whole_word:
  "plain_keyword keyword \<Longrightarrow>
   search (map atom_of keyword) prev s = whole_word_search keyword prev s"
  by (induction s arbitrary: prev) (simp_all add: match_at_occurs)

lemma keyword_test_whole_word:
  "plain_keyword keyword \<Longrightarrow> keyword_test keyword s = whole_word_match keyword s"
  by (simp add: keyword_test_def whole_word_match_def search_whole_word)

lemma error_keywords_plain: "list_all plain_keyword ERROR_KEYWORDS"
  by (simp add: ERROR_KEYWORDS_def plain_keyword_def is_word_chars)

lemma success_keywords_plain:
  "list_all plain_keyword
     (removeAll ''You have been authenticated. Please proceed back to the application.'' SUCCESS_KEYWORDS)"
  by (simp add: SUCCESS_KEYWORDS_def plain_keyword_def is_word_chars)

lemma list_ex_plain:
  "list_all plain_keyword kws \<Longrightarrow>
   list_ex (\<lambda>keyword. keyword_test keyword s) kws = list_ex (\<lambda>keyword. whole_word_match keyword s) kws"
  by (induction kws) (simp_all add: keyword_test_whole_word)

lemma list_ex_removeAll: "list_ex P kws = (list_ex P (removeAll k kws) \<or> (k \<in> set kws \<and> P k))"
  by (induction kws) auto

lemma isValidResponse_whole_word:
  assumes "s \<noteq> []" "\<not> hex32_test s"
  shows "isValidResponse (JStr s) =
     (\<not> list_ex (\<lambda>keyword. whole_word_match keyword s) ERROR_KEYWORDS
      \<and> (list_ex (\<lambda>keyword. whole_word_match keyword s)
            (removeAll ''You have been authenticated. Please proceed back to the application.'' SUCCESS_KEYWORDS)
          \<or> keyword_test ''You have been authenticated. Please proceed back to the application.'' s))"
proof -
  have e: "list_ex (\<lambda>keyword. keyword_test keyword s) ERROR_KEYWORDS
           = list_ex (\<lambda>keyword. whole_word_match keyword s) ERROR_KEYWORDS"
    by (rule list_ex_plain[OF error_keywords_plain])
  have m: "''You have been authenticated. Please proceed back to the application.'' \<in> set SUCCESS_KEYWORDS"
    by (simp add: SUCCESS_KEYWORDS_def)
  have "list_ex (\<lambda>keyword. keyword_test keyword s) SUCCESS_KEYWORDS
        = (list_ex (\<lambda>keyword. keyword_test keyword s)
             (removeAll ''You have been authenticated. Please proceed back to the application.'' SUCCESS_KEYWORDS)
           \<or> keyword_test ''You have been authenticated. Please proceed back to the application.'' s)"
    using list_ex_removeAll[of "\<lambda>keyword. keyword_test keyword s" SUCCESS_KEYWORDS
        "''You have been authenticated. Please proceed back to the application.''"] m
    by simp
  then have k: "list_ex (\<lambda>keyword. keyword_test keyword s) SUCCESS_KEYWORDS
        = (list_ex (\<lambda>keyword. whole_word_match keyword s)
             (removeAll ''You have been authenticated. Please proceed back to the application.'' SUCCESS_KEYWORDS)
           \<or> keyword_test ''You have been authenticated. Please proceed back to the application.'' s)"
    by (simp only: list_ex_plain[OF success_keywords_plain])
  from assms e k show ?thesis
    by (simp add: isValidResponse_def isErrorResponse_def isSuccessResponse_def Let_def toString_def)
qed

text \<open>
  Claim C5 fails on the code at a response that is, letter for letter, one of the
  configured success keywords. The keyword ends in a full stop, which the pattern
  reads as a wildcard followed by a word boundary; at the end of the text there is
  none. No error keyword matches the text and it is not a hexadecimal token, so
  by the claim it is valid, and the code classifies it as invalid.
\<close>

theorem literal_success_keyword_rejected:
  "''You have been authenticated. Please proceed back to the application.'' \<in> set SUCCESS_KEYWORDS
   \<and> \<not> hex32_test ''You have been authenticated. Please proceed back to the application.''
   \<and> claimed_valid ''You have been authenticated. Please proceed back to the application.''
   \<and> \<not> isErrorResponse (JStr ''You have been authenticated. Please proceed back to the application.'')
   \<and> \<not> isSuccessResponse (JStr ''You have been authenticated. Please proceed back to the application.'')
   \<and> \<not> isValidResponse (JStr ''You have been authenticated. Please proceed back to the application.'')"
proof -
  have 1: "''You have been authenticated. Please proceed back to the application.'' \<in> set SUCCESS_KEYWORDS"
    by (simp add: SUCCESS_KEYWORDS_def)
  have 2: "\<not> hex32_test ''You have been authenticated. Please proceed back to the application.''"
    by (simp add: hex32_test_def)
  have 3: "claimed_valid ''You have been authenticated. Please proceed back to the application.''"
    by (simp add: claimed_valid_def whole_word_match_def occurs_at_def kw_eval)
  have 4: "\<not> isErrorResponse (JStr ''You have been authenticated. Please proceed back to the application.'')"
    by (simp add: kw_eval)
  have 5: "\<not> isSuccessResponse (JStr ''You have been authenticated. Please proceed back to the application.'')"
    by (simp add: kw_eval)
  have 6: "\<not> isValidResponse (JStr ''You have been authenticated. Please proceed back to the application.'')"
    using 2 5 by (simp add: isValidResponse_def toString_def Let_def)
  from 1 2 3 4 5 6 show ?thesis by blast
qed

section \<open>Properties of the supplementary list\<close>

lemma find_None_iff_urls:
  "(find (\<lambda>api. api_url api = u) apis = None) = (u \<notin> api_url ` set apis)"
  by (auto simp: find_None_iff)

lemma addAdditionalApi_result:
  "addAdditionalApi ok fs newApi =
     (if api_url newApi \<in> api_url ` set (loadAdditionalApis fs) then (False, fs)
      else (True, saveAdditionalApis ok fs (loadAdditionalApis fs @ [newApi])))"
  by (simp add: addAdditionalApi_def Let_def find_None_iff_urls)

lemma add_api_handler_result:
  "api_url newApi \<noteq> [] \<Longrightarrow>
   add_api_handler remote_list ok fs (Some newApi) =
     (if api_url newApi \<in> api_url ` set (loadApis remote_list) then (ExistsInGit, fs)
      else if api_url newApi \<in> api_url ` set (loadAdditionalApis fs) then (ExistsInApisDat, fs)
      else (ApiAdded newApi, saveAdditionalApis ok fs (loadAdditionalApis fs @ [newApi])))"
  by (simp add: add_api_handler_def Let_def find_None_iff_urls addAdditionalApi_result)

lemma add_api_handler_invalid:
  "body = None \<or> (\<exists>a. body = Some a \<and> api_url a = []) \<Longrightarrow>
   add_api_handler remote_list ok fs body = (InvalidApiData, fs)"
  by (auto simp: add_api_handler_def)

lemma load_after_save:
  "loadAdditionalApis (saveAdditionalApis ok fs apis) = (if ok then apis else loadAdditionalApis fs)"
  by (simp add: loadAdditionalApis_def saveAdditionalApis_def)

lemma add_api_handler_distinct:
  assumes "distinct (map api_url (loadAdditionalApis fs))"
  shows "distinct (map api_url (loadAdditionalApis (snd (add_api_handler remote_list ok fs body))))"
proof (cases body)
  case None
  with assms show ?thesis by (simp add: add_api_handler_def)
next
  case (Some newApi)
  show ?thesis
  proof (cases "api_url newApi = []")
    case True
    with Some assms show ?thesis by (simp add: add_api_handler_def)
  next
    case False
    with Some assms show ?thesis
      by (auto simp: add_api_handler_result load_after_save)
  qed
qed

lemma add_api_requests_distinct:
  "distinct (map api_url (loadAdditionalApis fs)) \<Longrightarrow>
   distinct (map api_url (loadAdditionalApis (add_api_requests fs reqs)))"
proof (induction reqs arbitrary: fs)
  case Nil
  then show ?case by simp
next
  case (Cons r reqs)
  obtain remote_list ok body where r: "r = (remote_list, ok, body)" by (cases r) auto
  from Cons.prems have "distinct (map api_url (loadAdditionalApis (snd (add_api_handler remote_list ok fs body))))"
    by (rule add_api_handler_distinct)
  from Cons.IH[OF this] r show ?case by simp
qed

text \<open>
  Claim C4, as stated, fails. \<^verbatim>\<open>addAdditionalApi\<close>, the function that returns
  the boolean, looks at the local list only: given a descriptor whose template is in
  the remote list it returns true and appends it. The check against the remote list
  is made by the route, before the call. And when the write of the file fails, the
  route still answers that the descriptor was added, while the file is as it was.
\<close>

theorem add_api_claim_counterexample:
  "api_url \<lparr>api_url = ''https://a.example/?u={url}'', parse_json = False, response_key = ''r''\<rparr>
     \<in> api_url ` set (loadApis
           (Fetched (Some [\<lparr>api_url = ''https://a.example/?u={url}'', parse_json = False, response_key = ''r''\<rparr>])))
   \<and> addAdditionalApi True \<lparr>urls_file = None, apis_dat = None\<rparr>
        \<lparr>api_url = ''https://a.example/?u={url}'', parse_json = False, response_key = ''r''\<rparr>
      = (True,
         \<lparr>urls_file = None,
          apis_dat = Some [\<lparr>api_url = ''https://a.example/?u={url}'', parse_json = False, response_key = ''r''\<rparr>]\<rparr>)
   \<and> add_api_handler
        (Fetched (Some [\<lparr>api_url = ''https://a.example/?u={url}'', parse_json = False, response_key = ''r''\<rparr>]))
        False
        \<lparr>urls_file = None, apis_dat = None\<rparr>
        (Some \<lparr>api_url = ''https://c.example/?u={url}'', parse_json = False, response_key = ''r''\<rparr>)
      = (ApiAdded \<lparr>api_url = ''https://c.example/?u={url}'', parse_json = False, response_key = ''r''\<rparr>,
         \<lparr>urls_file = None, apis_dat = None\<rparr>)"
  by (simp add: add_api_handler_def addAdditionalApi_def loadApis_def loadAdditionalApis_def
        saveAdditionalApis_def Let_def)

text \<open>
  Claim C4, amended. A descriptor with a non-empty template is sent to the route. If
  its template is that of an entry of the remote list or of the local list, the
  route answers that it already exists and leaves the file as it was. Otherwise,
  when the write of the file goes through, the route answers that the descriptor
  was added and the file holds the old list followed by the descriptor.
  \<^verbatim>\<open>addAdditionalApi\<close> itself returns false exactly for a duplicate within the
  local list, and then writes nothing; for any other descriptor, when the write goes
  through, it returns true and the file holds the old list followed by the
  descriptor. From the absent file, after any sequence of requests, no two entries
  of the local list share a template.
\<close>

theorem add_api_dedup:
  assumes "api_url newApi \<noteq> []"
  shows
    "(api_url newApi \<in> api_url ` (set (loadApis remote_list) \<union> set (loadAdditionalApis fs)) \<longrightarrow>
        fst (add_api_handler remote_list ok fs (Some newApi)) \<in> {ExistsInGit, ExistsInApisDat}
        \<and> snd (add_api_handler remote_list ok fs (Some newApi)) = fs)
     \<and> (api_url newApi \<notin> api_url ` (set (loadApis remote_list) \<union> set (loadAdditionalApis fs)) \<and> ok \<longrightarrow>
        add_api_handler remote_list ok fs (Some newApi)
          = (ApiAdded newApi, fs\<lparr>apis_dat := Some (loadAdditionalApis fs @ [newApi])\<rparr>))
     \<and> (fst (addAdditionalApi ok fs newApi) = False
          \<longleftrightarrow> api_url newApi \<in> api_url ` set (loadAdditionalApis fs))
     \<and> (fst (addAdditionalApi ok fs newApi) = False \<longrightarrow> snd (addAdditionalApi ok fs newApi) = fs)
     \<and> (api_url newApi \<notin> api_url ` set (loadAdditionalApis fs) \<and> ok \<longrightarrow>
        addAdditionalApi ok fs newApi
          = (True, fs\<lparr>apis_dat := Some (loadAdditionalApis fs @ [newApi])\<rparr>))
     \<and> distinct (map api_url
          (loadAdditionalApis (add_api_requests \<lparr>urls_file = None, apis_dat = None\<rparr> reqs)))"
proof -
  have d: "distinct (map api_url
          (loadAdditionalApis (add_api_requests \<lparr>urls_file = None, apis_dat = None\<rparr> reqs)))"
    by (rule add_api_requests_distinct) (simp add: loadAdditionalApis_def)
  show ?thesis
    using assms d
    by (auto simp: add_api_handler_result addAdditionalApi_result saveAdditionalApis_def)
qed

theorem add_api_dedup_witness:
  "api_url \<lparr>api_url = ''https://c.example/?u={url}'', parse_json = False, response_key = ''r''\<rparr> \<noteq> []
   \<and> add_api_handler
        (Fetched (Some [\<lparr>api_url = ''https://a.example/?u={url}'', parse_json = False, response_key = ''r''\<rparr>]))
        True
        \<lparr>urls_file = None,
         apis_dat = Some [\<lparr>api_url = ''https://b.example/?u={url}'', parse_json = True, response_key = ''r''\<rparr>]\<rparr>
        (Some \<lparr>api_url = ''https://c.example/?u={url}'', parse_json = False, response_key = ''r''\<rparr>)
      = (ApiAdded \<lparr>api_url = ''https://c.example/?u={url}'', parse_json = False, response_key = ''r''\<rparr>,
         \<lparr>urls_file = None,
          apis_dat = Some [\<lparr>api_url = ''https://b.example/?u={url}'', parse_json = True, response_key = ''r''\<rparr>,
                           \<lparr>api_url = ''https://c.example/?u={url}'', parse_json = False, response_key = ''r''\<rparr>]\<rparr>)
   \<and> add_api_handler
        (Fetched (Some [\<lparr>api_url = ''https://a.example/?u={url}'', parse_json = False, response_key = ''r''\<rparr>]))
        True
        \<lparr>urls_file = None,
         apis_dat = Some [\<lparr>api_url = ''https://b.example/?u={url}'', parse_json = True, response_key = ''r''\<rparr>]\<rparr>
        (Some \<lparr>api_url = ''https://a.example/?u={url}'', parse_json = True, response_key = ''k''\<rparr>)
      = (ExistsInGit,
         \<lparr>urls_file = None,
          apis_dat = Some [\<lparr>api_url = ''https://b.example/?u={url}'', parse_json = True, response_key = ''r''\<rparr>]\<rparr>)"
proof -
  have c: "api_url \<lparr>api_url = ''https://c.example/?u={url}'', parse_json = False, response_key = ''r''\<rparr> \<noteq> []"
    by simp
  have a: "api_url \<lparr>api_url = ''https://a.example/?u={url}'', parse_json = True, response_key = ''k''\<rparr> \<noteq> []"
    by simp
  show ?thesis
    using c
      add_api_dedup[OF c,
        of "Fetched (Some [\<lparr>api_url = ''https://a.example/?u={url}'', parse_json = False, response_key = ''r''\<rparr>])"
           "\<lparr>urls_file = None,
             apis_dat = Some [\<lparr>api_url = ''https://b.example/?u={url}'', parse_json = True, response_key = ''r''\<rparr>]\<rparr>"
           True "[]"]
      add_api_dedup[OF a,
        of "Fetched (Some [\<lparr>api_url = ''https://a.example/?u={url}'', parse_json = False, response_key = ''r''\<rparr>])"
           "\<lparr>urls_file = None,
             apis_dat = Some [\<lparr>api_url = ''https://b.example/?u={url}'', parse_json = True, response_key = ''r''\<rparr>]\<rparr>"
           True "[]"]
    by (simp add: add_api_handler_def addAdditionalApi_def loadApis_def loadAdditionalApis_def
          saveAdditionalApis_def Let_def)
qed

section \<open>Properties of the resolver\<close>

lemma tryApiWithRetry_aborted:
  "tryApiWithRetry env u api attempt True st =
     \<lparr>outcome = None, tracker_after = st, trace = [], settled_at = 0\<rparr>"
  by (simp add: tryApiWithRetry.simps)

lemma tryApiWithRetry_last:
  "RETRY_LIMIT \<le> attempt \<Longrightarrow>
   tryApiWithRetry env u api attempt False st =
     \<lparr>outcome = try_block api (reply (env attempt)),
      tracker_after = record_stat st (api_url api) (elapsed (env attempt))
                        (try_block api (reply (env attempt)) \<noteq> None),
      trace = [NetCall (api_url api) u],
      settled_at = elapsed (env attempt)\<rparr>"
  by (subst tryApiWithRetry.simps) auto

lemma tryApiWithRetry_first:
  "tryApiWithRetry env u api (Suc 0) False st =
     \<lparr>outcome = try_block api (reply (env (Suc 0))),
      tracker_after = record_stat st (api_url api) (elapsed (env (Suc 0)))
                        (try_block api (reply (env (Suc 0))) \<noteq> None),
      trace = [NetCall (api_url api) u],
      settled_at = elapsed (env (Suc 0))\<rparr>"
  by (rule tryApiWithRetry_last) (simp add: RETRY_LIMIT_def)

lemma launch_map:
  "map trace (launch nt u i apis st) = map (\<lambda>api. [NetCall (api_url api) u]) apis"
  by (induction apis arbitrary: i st) (simp_all add: Let_def tryApiWithRetry_first)

lemma length_launch: "length (launch nt u i apis st) = length apis"
  by (induction apis arbitrary: i st) (simp_all add: Let_def)

lemma retry_branch_below_limit:
  "trace (tryApiWithRetry
      (\<lambda>k. \<lparr>reply = NetError, elapsed = 5, aborted_in_catch = False, aborted_after_delay = False\<rparr>)
      ''https://a.example/x'' \<lparr>api_url = ''https://up.example/?u={url}'', parse_json = False, response_key = ''r''\<rparr>
      0 False Map.empty)
   = [NetCall ''https://up.example/?u={url}'' ''https://a.example/x'', Delay 2000,
      NetCall ''https://up.example/?u={url}'' ''https://a.example/x'']"
  by (simp add: tryApiWithRetry.simps[of _ _ _ 0] tryApiWithRetry_first RETRY_LIMIT_def RETRY_DELAY_def
        try_block_def Let_def)

text \<open>
  Claim C10. With the retry limit 1 of the configuration: an attempt that starts
  with the signal aborted returns \<^verbatim>\<open>null\<close>, sends nothing and leaves the statistics
  as they were. Attempt number 1 sends exactly one request and awaits no delay; when
  the request fails or its result is invalid it returns \<^verbatim>\<open>null\<close> after recording
  one failure, otherwise it returns the result after recording one success. Every
  request that \<^verbatim>\<open>processUrl\<close> launches is such an attempt: one request per
  descriptor, no delay.
\<close>

theorem single_attempt_per_upstream:
  "tryApiWithRetry env u api attempt True st =
     \<lparr>outcome = None, tracker_after = st, trace = [], settled_at = 0\<rparr>
   \<and> tryApiWithRetry env u api 1 False st =
       (case try_block api (reply (env 1)) of
          Some r \<Rightarrow>
            \<lparr>outcome = Some r,
             tracker_after = record_stat st (api_url api) (elapsed (env 1)) True,
             trace = [NetCall (api_url api) u],
             settled_at = elapsed (env 1)\<rparr>
        | None \<Rightarrow>
            \<lparr>outcome = None,
             tracker_after = record_stat st (api_url api) (elapsed (env 1)) False,
             trace = [NetCall (api_url api) u],
             settled_at = elapsed (env 1)\<rparr>)
   \<and> map trace (launch nt u i apis st) = map (\<lambda>api. [NetCall (api_url api) u]) apis"
  by (auto simp: tryApiWithRetry_aborted tryApiWithRetry_first launch_map split: option.splits)

theorem single_attempt_per_upstream_witness:
  "tryApiWithRetry
     (\<lambda>k. \<lparr>reply = NetError, elapsed = 5, aborted_in_catch = False, aborted_after_delay = False\<rparr>)
     ''https://t.example/x''
     \<lparr>api_url = ''https://up.example/?u={url}'', parse_json = False, response_key = ''r''\<rparr>
     1 False Map.empty
   = \<lparr>outcome = None,
      tracker_after = record_stat Map.empty ''https://up.example/?u={url}'' 5 False,
      trace = [NetCall ''https://up.example/?u={url}'' ''https://t.example/x''],
      settled_at = 5\<rparr>
   \<and> tryApiWithRetry
     (\<lambda>k. \<lparr>reply = NetError, elapsed = 5, aborted_in_catch = False, aborted_after_delay = False\<rparr>)
     ''https://t.example/x''
     \<lparr>api_url = ''https://up.example/?u={url}'', parse_json = False, response_key = ''r''\<rparr>
     1 True Map.empty
   = \<lparr>outcome = None, tracker_after = Map.empty, trace = [], settled_at = 0\<rparr>"
  using single_attempt_per_upstream[
      of "\<lambda>k. \<lparr>reply = NetError, elapsed = 5, aborted_in_catch = False, aborted_after_delay = False\<rparr>"
         "''https://t.example/x''"
         "\<lparr>api_url = ''https://up.example/?u={url}'', parse_json = False, response_key = ''r''\<rparr>"
         1 Map.empty "\<lambda>i k. undefined" 0 "[]"]
  by (simp add: try_block_def)

lemma processUrl_no_apis:
  "loadApis (remote env) = [] \<Longrightarrow>
   processUrl env srv u = (Threw ''Nenhuma API configurada'', srv, [])"
  by (simp add: processUrl_def)

lemma processUrl_cache_hit:
  "loadApis (remote env) \<noteq> [] \<Longrightarrow>
   cached_entry (now env) (loadSavedUrls (disk srv)) u = Some e \<Longrightarrow>
   processUrl env srv u = (Returned \<lparr>result = response e, recently_processed = True\<rparr>, srv, [])"
  by (simp add: processUrl_def Let_def)

lemma cached_entry_None:
  "(cached_entry t m u = None) =
     (m u = None \<or> (\<exists>e. m u = Some e \<and> CACHE_DURATION \<le> t - timestamp e))"
  by (auto simp: cached_entry_def split: option.splits)

lemma cached_entry_Some:
  "(cached_entry t m u = Some e) = (m u = Some e \<and> t - timestamp e < CACHE_DURATION)"
  by (auto simp: cached_entry_def split: option.splits)

lemma firstValid_settle_not_Pending:
  "ps \<noteq> [] \<Longrightarrow> c + length ps = n \<Longrightarrow> firstValid_settle n c ps \<noteq> Pending"
proof (induction ps arbitrary: c)
  case Nil
  then show ?case by simp
next
  case (Cons p ps)
  show ?case
  proof (cases "ps = []")
    case True
    with Cons.prems show ?thesis by (auto split: option.splits)
  next
    case False
    from Cons.prems have "Suc c + length ps = n" by simp
    from Cons.IH[OF False this] show ?thesis by (auto split: option.splits)
  qed
qed

lemma firstValid_not_Pending: "ps \<noteq> [] \<Longrightarrow> firstValid ps \<noteq> Pending"
  unfolding firstValid_def by (rule firstValid_settle_not_Pending) simp_all

lemma processUrl_returns: "fst (processUrl env srv u) \<noteq> NeverReturns"
proof (cases "loadApis (remote env) = []")
  case True
  then show ?thesis by (simp add: processUrl_no_apis)
next
  case False
  show ?thesis
  proof (cases "cached_entry (now env) (loadSavedUrls (disk srv)) u")
    case (Some e)
    with False show ?thesis by (simp add: processUrl_cache_hit)
  next
    case None
    let ?reqs = "launch (net env) u 0 (sortApis (stats srv) (loadApis (remote env))) (stats srv)"
    have "length ?reqs = length (sortApis (stats srv) (loadApis (remote env)))"
      by (rule length_launch)
    moreover have "sortApis (stats srv) (loadApis (remote env)) \<noteq> []"
      using False length_sortApis[of "stats srv" "loadApis (remote env)"] by auto
    ultimately have "map outcome (sort_key settled_at ?reqs) \<noteq> []"
      by (metis length_0_conv length_map length_sort)
    then have "firstValid (map outcome (sort_key settled_at ?reqs)) \<noteq> Pending"
      by (rule firstValid_not_Pending)
    with False None show ?thesis
      by (simp add: processUrl_def Let_def split: promise.splits)
  qed
qed

lemma firstValid_settle_Rejected:
  "firstValid_settle n c ps = Rejected m \<Longrightarrow> m = ''Nenhuma API conseguiu processar a URL''"
  by (induction ps arbitrary: c) (auto split: option.splits if_splits)

lemma processUrl_cases:
  "processUrl env srv u =
     (if loadApis (remote env) = [] then (Threw ''Nenhuma API configurada'', srv, [])
      else case cached_entry (now env) (loadSavedUrls (disk srv)) u of
             Some e \<Rightarrow> (Returned \<lparr>result = response e, recently_processed = True\<rparr>, srv, [])
           | None \<Rightarrow>
               (let requests = launch (net env) u 0 (sortApis (stats srv) (loadApis (remote env))) (stats srv);
                    srv' = srv\<lparr>stats := final_tracker (stats srv) requests\<rparr>;
                    events = concat (map trace requests)
                in case firstValid (map outcome (sort_key settled_at requests)) of
                     Resolved r \<Rightarrow>
                       (Returned \<lparr>result = r, recently_processed = False\<rparr>,
                        srv'\<lparr>disk := saveUrl (write_ok env) (now_saved env) (disk srv') u r\<rparr>,
                        events)
                   | Rejected message \<Rightarrow> (Threw message, srv', events)
                   | Pending \<Rightarrow> (NeverReturns, srv', events)))"
  by (simp add: processUrl_def Let_def)

lemma processUrl_Threw_disk:
  "fst (processUrl env srv u) = Threw m \<Longrightarrow>
   disk (fst (snd (processUrl env srv u))) = disk srv
   \<and> (m = ''Nenhuma API configurada'' \<or> m = ''Nenhuma API conseguiu processar a URL'')"
  unfolding processUrl_cases
  by (auto simp: Let_def firstValid_def split: if_splits option.splits promise.splits
        dest: firstValid_settle_Rejected)

lemma processUrl_disk_changed:
  "disk (fst (snd (processUrl env srv u))) \<noteq> disk srv \<Longrightarrow>
   \<exists>r. fst (processUrl env srv u) = Returned \<lparr>result = r, recently_processed = False\<rparr>"
  unfolding processUrl_cases
  by (auto simp: Let_def split: if_splits option.splits promise.splits)

lemma processUrl_ignores_apis_dat:
  "fst (processUrl env (srv\<lparr>disk := (disk srv)\<lparr>apis_dat := d\<rparr>\<rparr>) u) = fst (processUrl env srv u)"
  unfolding processUrl_cases
  by (simp add: Let_def loadSavedUrls_def split: option.splits promise.splits)

text \<open>
  Claim C1 fails on the code. The fetch of the remote list fails while the local
  file holds a descriptor: \<^verbatim>\<open>processUrl\<close> throws that no upstream is configured.
  And when the remote list holds one descriptor and the local file another, the only
  request goes to the remote one. The local file is never read by \<^verbatim>\<open>processUrl\<close>.
\<close>

theorem supplementary_list_unused:
  "processUrl
     \<lparr>remote = FetchFailed, now = 1000, now_saved = 1005,
      net = (\<lambda>i k. \<lparr>reply = Response (JStr ''https://target.example/file''), elapsed = 5,
                      aborted_in_catch = False, aborted_after_delay = False\<rparr>),
      write_ok = True\<rparr>
     \<lparr>stats = Map.empty,
      disk = \<lparr>urls_file = None,
              apis_dat = Some [\<lparr>api_url = ''https://b.example/?u={url}'', parse_json = False, response_key = ''r''\<rparr>]\<rparr>\<rparr>
     ''https://t.example/x''
   = (Threw ''Nenhuma API configurada'',
      \<lparr>stats = Map.empty,
       disk = \<lparr>urls_file = None,
               apis_dat = Some [\<lparr>api_url = ''https://b.example/?u={url}'', parse_json = False, response_key = ''r''\<rparr>]\<rparr>\<rparr>,
      [])
   \<and> snd (snd (processUrl
     \<lparr>remote = Fetched (Some [\<lparr>api_url = ''https://a.example/?u={url}'', parse_json = False, response_key = ''r''\<rparr>]),
      now = 1000, now_saved = 1005,
      net = (\<lambda>i k. \<lparr>reply = NetError, elapsed = 5,
                      aborted_in_catch = False, aborted_after_delay = False\<rparr>),
      write_ok = True\<rparr>
     \<lparr>stats = Map.empty,
      disk = \<lparr>urls_file = None,
              apis_dat = Some [\<lparr>api_url = ''https://b.example/?u={url}'', parse_json = False, response_key = ''r''\<rparr>]\<rparr>\<rparr>
     ''https://t.example/x''))
   = [NetCall ''https://a.example/?u={url}'' ''https://t.example/x'']"
  by (simp add: processUrl_cases loadApis_def loadSavedUrls_def cached_entry_def sortApis_def
        tryApiWithRetry_first Let_def try_block_def firstValid_def)

text \<open>
  Claim C6, as stated, fails. A fresh entry is in the cache, and the fetch of the
  remote list fails: \<^verbatim>\<open>processUrl\<close> throws before it looks at the cache.
\<close>

theorem cache_hit_without_apis_counterexample:
  "cached_entry 1000
     (loadSavedUrls \<lparr>urls_file = Some [''https://t.example/x'' \<mapsto> \<lparr>response = JStr ''https://r.example/y'', timestamp = 900\<rparr>],
                     apis_dat = None\<rparr>)
     ''https://t.example/x''
   = Some \<lparr>response = JStr ''https://r.example/y'', timestamp = 900\<rparr>
   \<and> fst (processUrl
     \<lparr>remote = FetchFailed, now = 1000, now_saved = 1005,
      net = (\<lambda>i k. \<lparr>reply = NetError, elapsed = 5,
                      aborted_in_catch = False, aborted_after_delay = False\<rparr>),
      write_ok = True\<rparr>
     \<lparr>stats = Map.empty,
      disk = \<lparr>urls_file = Some [''https://t.example/x'' \<mapsto> \<lparr>response = JStr ''https://r.example/y'', timestamp = 900\<rparr>],
              apis_dat = None\<rparr>\<rparr>
     ''https://t.example/x'')
   = Threw ''Nenhuma API configurada''"
  by (simp add: processUrl_cases loadApis_def loadSavedUrls_def cached_entry_def CACHE_DURATION_def)

text \<open>
  Claim C6, amended. The cache test is a miss exactly when the entry is absent or
  the clock minus its timestamp is at least the window of ten minutes. When the test
  is a hit and the fetched list of upstreams is not empty, \<^verbatim>\<open>processUrl\<close> returns
  the saved response, marked as recently processed, sends no request and changes
  neither the statistics nor the files. When the fetched list is empty it throws
  before the cache is consulted.
\<close>

theorem cache_hit_skips_fanout:
  "(cached_entry t m u = None) =
     (m u = None \<or> (\<exists>e. m u = Some e \<and> 10 * 60 * 1000 \<le> t - timestamp e))
   \<and> (loadApis (remote env) \<noteq> [] \<and> cached_entry (now env) (loadSavedUrls (disk srv)) u = Some e0 \<longrightarrow>
        processUrl env srv u
          = (Returned \<lparr>result = response e0, recently_processed = True\<rparr>, srv, []))
   \<and> (loadApis (remote env) = [] \<longrightarrow>
        processUrl env srv u = (Threw ''Nenhuma API configurada'', srv, []))"
  using cached_entry_None[of t m u]
  by (simp add: processUrl_no_apis processUrl_cache_hit CACHE_DURATION_def)

theorem cache_hit_skips_fanout_witness:
  "loadApis (Fetched (Some [\<lparr>api_url = ''https://a.example/?u={url}'', parse_json = False, response_key = ''r''\<rparr>])) \<noteq> []
   \<and> processUrl
     \<lparr>remote = Fetched (Some [\<lparr>api_url = ''https://a.example/?u={url}'', parse_json = False, response_key = ''r''\<rparr>]),
      now = 1000, now_saved = 1005,
      net = (\<lambda>i k. \<lparr>reply = NetError, elapsed = 5,
                      aborted_in_catch = False, aborted_after_delay = False\<rparr>),
      write_ok = True\<rparr>
     \<lparr>stats = Map.empty,
      disk = \<lparr>urls_file = Some [''https://t.example/x'' \<mapsto> \<lparr>response = JStr ''https://r.example/y'', timestamp = 900\<rparr>],
              apis_dat = None\<rparr>\<rparr>
     ''https://t.example/x''
   = (Returned \<lparr>result = JStr ''https://r.example/y'', recently_processed = True\<rparr>,
      \<lparr>stats = Map.empty,
       disk = \<lparr>urls_file = Some [''https://t.example/x'' \<mapsto> \<lparr>response = JStr ''https://r.example/y'', timestamp = 900\<rparr>],
               apis_dat = None\<rparr>\<rparr>,
      [])
   \<and> cached_entry 600900
        [''https://t.example/x'' \<mapsto> \<lparr>response = JStr ''https://r.example/y'', timestamp = 900\<rparr>]
        ''https://t.example/x'' = None"
  using cache_hit_skips_fanout[
      of 600900 "[''https://t.example/x'' \<mapsto> \<lparr>response = JStr ''https://r.example/y'', timestamp = 900\<rparr>]"
         "''https://t.example/x''"
         "\<lparr>remote = Fetched (Some [\<lparr>api_url = ''https://a.example/?u={url}'', parse_json = False, response_key = ''r''\<rparr>]),
           now = 1000, now_saved = 1005,
           net = (\<lambda>i k. \<lparr>reply = NetError, elapsed = 5,
                      aborted_in_catch = False, aborted_after_delay = False\<rparr>),
           write_ok = True\<rparr>"
         "\<lparr>stats = Map.empty,
           disk = \<lparr>urls_file = Some [''https://t.example/x'' \<mapsto> \<lparr>response = JStr ''https://r.example/y'', timestamp = 900\<rparr>],
              apis_dat = None\<rparr>\<rparr>"
         "\<lparr>response = JStr ''https://r.example/y'', timestamp = 900\<rparr>"]
  by (simp add: loadApis_def loadSavedUrls_def cached_entry_def CACHE_DURATION_def)

text \<open>
  Claim C9. When \<^verbatim>\<open>processUrl\<close> throws, with either of its two messages, the
  files are as they were, so the cache holds for every key what it held before.
  The cache file differs after the call only when the call returned a freshly
  resolved result.
\<close>

theorem failure_leaves_cache:
  "(\<forall>m. fst (processUrl env srv u) = Threw m \<longrightarrow>
      (m = ''Nenhuma API configurada'' \<or> m = ''Nenhuma API conseguiu processar a URL'')
      \<and> disk (fst (snd (processUrl env srv u))) = disk srv
      \<and> (\<forall>k. loadSavedUrls (disk (fst (snd (processUrl env srv u)))) k = loadSavedUrls (disk srv) k))
   \<and> (urls_file (disk (fst (snd (processUrl env srv u)))) \<noteq> urls_file (disk srv) \<longrightarrow>
        (\<exists>r. fst (processUrl env srv u) = Returned \<lparr>result = r, recently_processed = False\<rparr>))"
proof -
  have "disk (fst (snd (processUrl env srv u))) \<noteq> disk srv"
    if "urls_file (disk (fst (snd (processUrl env srv u)))) \<noteq> urls_file (disk srv)"
    using that by auto
  then show ?thesis
    using processUrl_Threw_disk[of env srv u] processUrl_disk_changed[of env srv u] by auto
qed

theorem failure_leaves_cache_witness:
  "processUrl
     \<lparr>remote = Fetched (Some [\<lparr>api_url = ''https://a.example/?u={url}'', parse_json = False, response_key = ''r''\<rparr>]),
      now = 700000, now_saved = 700005,
      net = (\<lambda>i k. \<lparr>reply = NetError, elapsed = 5,
                      aborted_in_catch = False, aborted_after_delay = False\<rparr>),
      write_ok = True\<rparr>
     \<lparr>stats = Map.empty,
      disk = \<lparr>urls_file = Some [''https://t.example/x'' \<mapsto> \<lparr>response = JStr ''https://r.example/y'', timestamp = 900\<rparr>],
              apis_dat = None\<rparr>\<rparr>
     ''https://t.example/x''
   = (Threw ''Nenhuma API conseguiu processar a URL'',
      \<lparr>stats = record_stat Map.empty ''https://a.example/?u={url}'' 5 False,
       disk = \<lparr>urls_file = Some [''https://t.example/x'' \<mapsto> \<lparr>response = JStr ''https://r.example/y'', timestamp = 900\<rparr>],
               apis_dat = None\<rparr>\<rparr>,
      [NetCall ''https://a.example/?u={url}'' ''https://t.example/x''])"
  using failure_leaves_cache[
      of "\<lparr>remote = Fetched (Some [\<lparr>api_url = ''https://a.example/?u={url}'', parse_json = False, response_key = ''r''\<rparr>]),
           now = 700000, now_saved = 700005,
           net = (\<lambda>i k. \<lparr>reply = NetError, elapsed = 5,
                      aborted_in_catch = False, aborted_after_delay = False\<rparr>),
           write_ok = True\<rparr>"
         "\<lparr>stats = Map.empty,
           disk = \<lparr>urls_file = Some [''https://t.example/x'' \<mapsto> \<lparr>response = JStr ''https://r.example/y'', timestamp = 900\<rparr>],
              apis_dat = None\<rparr>\<rparr>"
         "''https://t.example/x''"]
  by (simp add: processUrl_cases loadApis_def loadSavedUrls_def cached_entry_def CACHE_DURATION_def
        sortApis_def tryApiWithRetry_first Let_def try_block_def firstValid_def final_tracker_def)

text \<open>
  A run of the whole call, for reference: the first upstream fails, the second
  answers a JSON object whose member is a valid text. The call returns that text,
  both statistics are updated, and the cache holds the text under the requested
  address.
\<close>

lemma valid_example: "isValidResponse (JStr ''loadstring ok'')"
  by (simp add: isValidResponse_def hex32_test_def Let_def kw_eval)

lemma processUrl_fresh_example:
  "processUrl
     \<lparr>remote = Fetched (Some [\<lparr>api_url = ''https://a.example/?u={url}'', parse_json = False, response_key = ''r''\<rparr>,
                              \<lparr>api_url = ''https://b.example/?u={url}'', parse_json = True, response_key = ''r''\<rparr>]),
      now = 700000, now_saved = 700009,
      net = (\<lambda>i k. if i = 0
                     then \<lparr>reply = NetError, elapsed = 5,
                           aborted_in_catch = False, aborted_after_delay = False\<rparr>
                     else \<lparr>reply = Response (JObj [(''r'', JStr ''loadstring ok'')]), elapsed = 9,
                           aborted_in_catch = False, aborted_after_delay = False\<rparr>),
      write_ok = True\<rparr>
     \<lparr>stats = Map.empty, disk = \<lparr>urls_file = None, apis_dat = None\<rparr>\<rparr>
     ''https://t.example/x''
   = (Returned \<lparr>result = JStr ''loadstring ok'', recently_processed = False\<rparr>,
      \<lparr>stats = record_stat (record_stat Map.empty ''https://a.example/?u={url}'' 5 False)
                 ''https://b.example/?u={url}'' 9 True,
       disk = \<lparr>urls_file = Some [''https://t.example/x'' \<mapsto> \<lparr>response = JStr ''loadstring ok'', timestamp = 700009\<rparr>],
               apis_dat = None\<rparr>\<rparr>,
      [NetCall ''https://a.example/?u={url}'' ''https://t.example/x'',
       NetCall ''https://b.example/?u={url}'' ''https://t.example/x''])"
  using valid_example
  by (simp add: processUrl_cases loadApis_def loadSavedUrls_def cached_entry_def
        sortApis_def compare_apis_def getScore_def
        tryApiWithRetry_first Let_def try_block_def extract_result_def get_property_def
        firstValid_def final_tracker_def saveUrl_def)

end
